theory Spec2Isabelle
  imports Main "HOL-Library.Sublist"
begin

section \<open>Characters and strings\<close>

text \<open>
  JavaScript strings are modelled as \<^typ>\<open>string\<close>.  The functions below that look
  inside a string are the JavaScript ones on ASCII text: there \<open>toLowerCase\<close> and
  \<open>toUpperCase\<close> change the letters A-Z and a-z only, the white space of \<open>trim\<close>, of
  \<open>parseInt\<close> and of the regular expression class \<open>\s\<close> is tab, line feed, vertical
  tab, form feed, carriage return and space, \<open>\d\<close> is the ten digits and \<open>\w\<close> is
  letters, digits and the underscore.  Outside ASCII JavaScript knows more white space
  (no-break space, the byte order mark, the line and paragraph separators, the space
  separators) and more letters with a lower case, which the functions below do not: every
  statement about text that a user types is therefore made for ASCII text
  (\<open>ascii_text\<close>), and says nothing about other text.  The icons of the formatter lie
  outside ASCII; each is a fixed string here (its UTF-8 bytes), which is only ever
  copied.
\<close>

definition is_ascii :: "char \<Rightarrow> bool" where
  "is_ascii c = (of_char c < (128::nat))"

definition ascii_text :: "string \<Rightarrow> bool" where
  "ascii_text s = list_all is_ascii s"

definition upper_letters :: string where
  "upper_letters = ''ABCDEFGHIJKLMNOPQRSTUVWXYZ''"

definition lower_letters :: string where
  "lower_letters = ''abcdefghijklmnopqrstuvwxyz''"

definition digit_chars :: string where
  "digit_chars = ''0123456789''"

definition lower_char :: "char \<Rightarrow> char" where
  "lower_char c = (case map_of (zip upper_letters lower_letters) c of None \<Rightarrow> c | Some d \<Rightarrow> d)"

definition upper_char :: "char \<Rightarrow> char" where
  "upper_char c = (case map_of (zip lower_letters upper_letters) c of None \<Rightarrow> c | Some d \<Rightarrow> d)"

definition toLowerCase :: "string \<Rightarrow> string" where
  "toLowerCase s = map lower_char s"

definition toUpperCase :: "string \<Rightarrow> string" where
  "toUpperCase s = map upper_char s"

definition is_space :: "char \<Rightarrow> bool" where
  "is_space c = (c \<in> set [CHR 0x09, CHR 0x0A, CHR 0x0B, CHR 0x0C, CHR 0x0D, CHR 0x20])"

definition is_digit :: "char \<Rightarrow> bool" where
  "is_digit c = (c \<in> set digit_chars)"

definition is_word :: "char \<Rightarrow> bool" where
  "is_word c = (c \<in> set (upper_letters @ lower_letters @ digit_chars @ ''_''))"

definition trim :: "string \<Rightarrow> string" where
  "trim s = rev (dropWhile is_space (rev (dropWhile is_space s)))"

section \<open>The data of \<open>types.ts\<close>\<close>

text \<open>One element of a severity's array in \<open>ScanResponse.raw_violations\<close>.\<close>

record issue =
  issue_id :: string
  issue_description :: string
  issue_help :: string
  issue_html :: string
  issue_impact :: string

text \<open>
  The value stored under a severity key.  The interface declares an array; the formatter
  still asks \<open>Array.isArray\<close>, so a value that is no array is kept as a case.
\<close>

datatype issues_value = IssueArray "issue list" | NotAnArray

text \<open>
  \<open>raw_violations\<close> is a JavaScript object used as a dictionary, and the code reads
  it through \<open>Object.entries\<close> only.  The association list is the result of
  \<open>Object.entries\<close>: the keys with their values, in the order in which JavaScript lists
  them (integer-like keys first, in ascending order, then the other keys in insertion
  order, which for a parsed JSON response is their order in the response text).  \<open>None\<close>
  is a missing (falsy) \<open>raw_violations\<close>.
\<close>

record ScanResponse =
  resp_url :: string
  scan_result :: string
  raw_violations :: "(string \<times> issues_value) list option"

record DetailedViolation =
  v_id :: string
  v_help :: string
  v_html :: string

record DetailedScanResults =
  summary :: string
  violations :: "DetailedViolation list"

section \<open>\<open>formatters.ts\<close>\<close>

definition icon_red :: string where "icon_red = [CHR 0xF0, CHR 0x9F, CHR 0x94, CHR 0xB4]"
definition icon_orange :: string where "icon_orange = [CHR 0xF0, CHR 0x9F, CHR 0x9F, CHR 0xA0]"
definition icon_yellow :: string where "icon_yellow = [CHR 0xF0, CHR 0x9F, CHR 0x9F, CHR 0xA1]"
definition icon_blue :: string where "icon_blue = [CHR 0xF0, CHR 0x9F, CHR 0x94, CHR 0xB5]"
definition icon_white :: string where "icon_white = [CHR 0xE2, CHR 0x9A, CHR 0xAA]"
definition icon_chart :: string where "icon_chart = [CHR 0xF0, CHR 0x9F, CHR 0x93, CHR 0x8A]"

definition getSeverityIcon :: "string \<Rightarrow> string" where
  "getSeverityIcon severity =
     (let s = toLowerCase severity in
      if s = ''critical'' then icon_red
      else if s = ''serious'' then icon_orange
      else if s = ''moderate'' then icon_yellow
      else if s = ''minor'' then icon_blue
      else icon_white)"

text \<open>The line pushed for one issue: \<open>`${icon} [${severity.toUpperCase()}] ${issue.help}`\<close>.\<close>

definition issue_line :: "string \<Rightarrow> issue \<Rightarrow> string" where
  "issue_line severity i =
     getSeverityIcon severity @ '' ['' @ toUpperCase severity @ ''] '' @ issue_help i"

text \<open>The object pushed for one issue: \<open>{id, help, html}\<close>.\<close>

definition issue_detail :: "issue \<Rightarrow> DetailedViolation" where
  "issue_detail i = \<lparr>v_id = issue_id i, v_help = issue_help i, v_html = issue_html i\<rparr>"

text \<open>
  Both functions run the same two nested \<open>forEach\<close> loops, each pushing onto the end
  of a result array: a left fold with the array as accumulator.
\<close>

definition format_entry :: "string list \<Rightarrow> string \<times> issues_value \<Rightarrow> string list" where
  "format_entry results e =
     (case e of (severity, issues) \<Rightarrow>
        (case issues of
           NotAnArray \<Rightarrow> results
         | IssueArray is \<Rightarrow>
             if length is > 0
             then foldl (\<lambda>res i. res @ [issue_line severity i]) results is
             else results))"

definition formatScanResults :: "ScanResponse \<Rightarrow> string list" where
  "formatScanResults scanResponse =
     (let results = [icon_chart @ '' '' @ scan_result scanResponse] in
      case raw_violations scanResponse of
        None \<Rightarrow> results
      | Some entries \<Rightarrow> foldl format_entry results entries)"

definition extract_entry :: "DetailedViolation list \<Rightarrow> string \<times> issues_value \<Rightarrow> DetailedViolation list" where
  "extract_entry vs e =
     (case e of (severity, issues) \<Rightarrow>
        (case issues of
           NotAnArray \<Rightarrow> vs
         | IssueArray is \<Rightarrow>
             if length is > 0
             then foldl (\<lambda>res i. res @ [issue_detail i]) vs is
             else vs))"

definition extractDetailedScanResults :: "ScanResponse \<Rightarrow> DetailedScanResults" where
  "extractDetailedScanResults scanResponse =
     (let detailedResults = \<lparr>summary = scan_result scanResponse, violations = []\<rparr> in
      case raw_violations scanResponse of
        None \<Rightarrow> detailedResults
      | Some entries \<Rightarrow>
          detailedResults\<lparr>violations := foldl extract_entry (violations detailedResults) entries\<rparr>)"

section \<open>\<open>api-client.ts\<close>\<close>

text \<open>
  A value caught by \<open>catch (error)\<close>: an \<open>Error\<close> with its message, an axios error
  (an \<open>Error\<close> too) with the HTTP status of its response, its \<open>code\<close> and its message,
  or a thrown value that is no \<open>Error\<close>.
\<close>

datatype js_error =
  Error string
| AxiosError "nat option" "string option" string
| NonError

text \<open>\<open>error instanceof Error ? error.message : "unknown error"\<close>\<close>

definition error_message :: "js_error \<Rightarrow> string" where
  "error_message e =
     (case e of Error m \<Rightarrow> m | AxiosError status code m \<Rightarrow> m | NonError \<Rightarrow> ''unknown error'')"

text \<open>A parsed JSON value, as \<open>JSON.parse\<close> returns it.\<close>

datatype json =
  JNull | JBool bool | JNumber int | JString string | JArray "json list"
| JObject "(string \<times> json) list"

text \<open>The body of a POST request, one constructor per shape the client builds.\<close>

datatype body =
  ScanRequest string
| QueryObject string
| ParsedQuery json
| IntentQuery string "string list" "string list"

record request =
  req_url :: string
  req_body :: body
  req_key :: string

record AccessibilityResponse =
  answer :: string
  explanation :: string
  guidelines :: string
  examples :: string

text \<open>
  \<open>IntentAnalysisResult\<close>.  The optional metadata fields are options; \<open>confidence\<close> is
  a floating-point number that no branch reads, and is left out.
\<close>

record IntentAnalysisResult =
  i_command :: string
  i_content :: string
  m_url :: "string option"
  m_issue_number :: "int option"
  m_topic :: "string option"

text \<open>
  What the code calls but does not define: \<open>JSON.parse\<close> (\<open>Inl\<close> the message of the
  \<open>SyntaxError\<close> it throws), \<open>axios.post\<close> on each of the three endpoints (\<open>Inl\<close> the
  value it rejects with; a response body that is falsy or no object is \<open>None\<close>), and
  whether \<open>new URL(s)\<close> returns.
\<close>

record env =
  json_parse :: "string \<Rightarrow> string + json"
  post_query :: "request \<Rightarrow> js_error + AccessibilityResponse option"
  post_scan :: "request \<Rightarrow> js_error + ScanResponse"
  post_intent :: "request \<Rightarrow> js_error + IntentAnalysisResult"
  url_parses :: "string \<Rightarrow> bool"

text \<open>
  Each client function returns the requests it sent, in order, with its result: \<open>Inl\<close> for
  the error it throws, \<open>Inr\<close> for the value it returns.
\<close>

definition query_data :: "env \<Rightarrow> string \<Rightarrow> string + body" where
  "query_data e query =
     (if prefix ''{'' query
      then (case json_parse e query of Inl m \<Rightarrow> Inl m | Inr parsed \<Rightarrow> Inr (ParsedQuery parsed))
      else Inr (QueryObject query))"

definition queryAccessibilityApi ::
  "env \<Rightarrow> string \<Rightarrow> string \<Rightarrow> string \<Rightarrow> string
     \<Rightarrow> request list \<times> (js_error + AccessibilityResponse option)" where
  "queryAccessibilityApi e apiUrl cmd apiKey query =
     (case query_data e query of
        Inl m \<Rightarrow> ([], Inl (Error (''API request failed: '' @ m)))
      | Inr queryData \<Rightarrow>
          (let r = \<lparr>req_url = apiUrl @ ''/api/accessibility/'' @ cmd,
                    req_body = queryData, req_key = apiKey\<rparr>
           in case post_query e r of
                Inr data \<Rightarrow> ([r], Inr data)
              | Inl err \<Rightarrow> ([r], Inl (Error (''API request failed: '' @ error_message err)))))"

definition msg_key_not_configured :: string where
  "msg_key_not_configured = ''API key not configured. Please set your API key in the extension settings.''"

definition msg_url_not_configured :: string where
  "msg_url_not_configured = ''API URL not configured. Please set your API URL in the extension settings.''"

definition msg_invalid_key :: string where
  "msg_invalid_key = ''Invalid or missing API key. Please check your API key in the extension settings.''"

definition msg_invalid_request :: string where
  "msg_invalid_request = ''Invalid URL format or request. Please check the URL and try again.''"


definition msg_no_connection :: string where
  "msg_no_connection = ''Could not connect to the API server. Please ensure it's running.''"

text \<open>
  The \<open>catch\<close> block shared by \<open>performAccessibilityScan\<close> and \<open>analyzeIntent\<close>; they
  differ in the message for status 400.
\<close>

definition translate_axios_error :: "string \<Rightarrow> js_error \<Rightarrow> js_error" where
  "translate_axios_error msg400 err =
     (case err of
        AxiosError status code m \<Rightarrow>
          if status = Some 401 then Error msg_invalid_key
          else if status = Some 400 then Error msg400
          else if code = Some ''ECONNREFUSED'' then Error msg_no_connection
          else err
      | _ \<Rightarrow> err)"

definition performAccessibilityScan ::
  "env \<Rightarrow> string \<Rightarrow> string \<Rightarrow> string \<Rightarrow> request list \<times> (js_error + ScanResponse)" where
  "performAccessibilityScan e apiUrl apiKey target =
     (if apiKey = [] then ([], Inl (Error msg_key_not_configured))
      else if apiUrl = [] then ([], Inl (Error msg_url_not_configured))
      else
        (let r = \<lparr>req_url = apiUrl @ ''/api/accessibility/scan'',
                  req_body = ScanRequest target, req_key = apiKey\<rparr>
         in case post_scan e r of
              Inr data \<Rightarrow> ([r], Inr data)
            | Inl err \<Rightarrow> ([r], Inl (translate_axios_error msg_invalid_request err))))"


section \<open>The regular expressions of the intent detector\<close>

text \<open>
  \<open>/https?:\/\/[^\s]+/\<close> tried at the start of a string: the scheme, then at least one
  character that is no white space; the match runs to the next white space.
\<close>

definition url_rest :: "string \<Rightarrow> string \<Rightarrow> string option" where
  "url_rest scheme r =
     (case r of
        [] \<Rightarrow> None
      | c # cs \<Rightarrow> if is_space c then None else Some (scheme @ takeWhile (\<lambda>x. \<not> is_space x) r))"

definition urlPattern_at :: "string \<Rightarrow> string option" where
  "urlPattern_at s =
     (if prefix ''https://'' s then url_rest ''https://'' (drop 8 s)
      else if prefix ''http://'' s then url_rest ''http://'' (drop 7 s)
      else None)"

text \<open>The leftmost match of the pattern, as \<open>test\<close> and \<open>match\<close> find it.\<close>

fun urlPattern_match :: "string \<Rightarrow> string option" where
  "urlPattern_match [] = None"
| "urlPattern_match (c # cs) =
     (case urlPattern_at (c # cs) of
        Some m \<Rightarrow> Some m
      | None \<Rightarrow> urlPattern_match cs)"

text \<open>
  \<open>\b\d+\b\<close> tried at the start of a string whose preceding character is a word
  character or not (\<open>prev_word\<close>; false at the start of the input).  A boundary before a
  digit needs a preceding non-word character; the boundary after the digits needs the
  whole run of digits, followed by a non-word character or the end.
\<close>

definition bare_integer_at :: "bool \<Rightarrow> string \<Rightarrow> string option" where
  "bare_integer_at prev_word s =
     (let ds = takeWhile is_digit s; rest = dropWhile is_digit s in
      if \<not> prev_word \<and> ds \<noteq> [] \<and> (rest = [] \<or> \<not> is_word (hd rest)) then Some ds else None)"

text \<open>\<open>#\d+\<close> tried at the start of a string.\<close>

definition hash_number_at :: "string \<Rightarrow> bool" where
  "hash_number_at s = (case s of c # d # _ \<Rightarrow> c = CHR ''#'' \<and> is_digit d | _ \<Rightarrow> False)"

text \<open>\<open>/fix|issue|problem|error|violation|#\d+|\b\d+\b/\<close>, tested at every position.\<close>

definition fixPattern_at :: "bool \<Rightarrow> string \<Rightarrow> bool" where
  "fixPattern_at prev_word s =
     (prefix ''fix'' s \<or> prefix ''issue'' s \<or> prefix ''problem'' s \<or> prefix ''error'' s
      \<or> prefix ''violation'' s \<or> hash_number_at s \<or> bare_integer_at prev_word s \<noteq> None)"

fun fixPattern_test :: "bool \<Rightarrow> string \<Rightarrow> bool" where
  "fixPattern_test prev_word [] = False"
| "fixPattern_test prev_word (c # cs) =
     (fixPattern_at prev_word (c # cs) \<or> fixPattern_test (is_word c) cs)"

text \<open>\<open>content.match(/\b(\d+)\b/)\<close>: the digits of the leftmost match.\<close>

fun issuePattern_match :: "bool \<Rightarrow> string \<Rightarrow> string option" where
  "issuePattern_match prev_word [] = None"
| "issuePattern_match prev_word (c # cs) =
     (case bare_integer_at prev_word (c # cs) of
        Some ds \<Rightarrow> Some ds
      | None \<Rightarrow> issuePattern_match (is_word c) cs)"

subsection \<open>\<open>parseInt(s, 10)\<close>\<close>

definition digit_value :: "char \<Rightarrow> nat" where
  "digit_value c =
     (case map_of (zip digit_chars [0, 1, 2, 3, 4, 5, 6, 7, 8, 9]) c of None \<Rightarrow> 0 | Some n \<Rightarrow> n)"

definition decimal :: "string \<Rightarrow> nat" where
  "decimal ds = foldl (\<lambda>n c. 10 * n + digit_value c) 0 ds"

text \<open>
  White space is skipped, a sign is read, then the longest run of digits; no digit gives
  \<open>NaN\<close>, which is \<open>None\<close>.  The result is an unbounded integer: the double that
  JavaScript computes is the same number below \<open>2^53\<close>, and above it is still larger than
  any array length, which is all the callers compare it with.
\<close>

definition parseInt :: "string \<Rightarrow> int option" where
  "parseInt s =
     (let t = dropWhile is_space s;
          negative = (t \<noteq> [] \<and> hd t = CHR ''-'');
          r = (if t \<noteq> [] \<and> (hd t = CHR ''-'' \<or> hd t = CHR ''+'') then tl t else t);
          ds = takeWhile is_digit r
      in if ds = [] then None
         else Some (if negative then - int (decimal ds) else int (decimal ds)))"

section \<open>The chat handlers\<close>

text \<open>The keys of the extension's \<open>globalState\<close> that the handlers read and write.\<close>

record global_state =
  scanResults :: "string list"
  detailedScanResults :: DetailedScanResults
  apiUrl :: string
  apiKey :: string
  previousCommands :: "string list"

record chat_request =
  command :: "string option"
  prompt :: string

text \<open>
  One call of \<open>stream.markdown\<close>.  The fixed warnings are constructors (their wording
  differs a little between the handler versions); the others carry the text that is
  interpolated.  \<open>Answer r\<close> stands for \<open>formatAccessibilityResponse(r)\<close>.
\<close>

datatype markdown =
  MissingUrl
| InvalidUrlFormat
| Scanning string
| ScanResultsShown string
| ScanFailed string
| NoScanResults
| InvalidIssueNumber
| NoDetailedInformation
| Answer AccessibilityResponse
| FixFailed string
| MissingTopic
| ExplainFailed string
| RequestFailed string

text \<open>What one run of a handler leaves behind: the state, the messages, the requests.\<close>

record outcome =
  new_state :: global_state
  shown :: "markdown list"
  sent :: "request list"

definition say :: "global_state \<Rightarrow> markdown list \<Rightarrow> request list \<Rightarrow> outcome" where
  "say st ms rs = \<lparr>new_state = st, shown = ms, sent = rs\<rparr>"

text \<open>\<open>xs[i]\<close> for a number \<open>i\<close>: \<open>undefined\<close> outside the array.\<close>

definition array_get :: "'a list \<Rightarrow> int \<Rightarrow> 'a option" where
  "array_get xs i = (if 0 \<le> i \<and> i < int (length xs) then Some (xs ! nat i) else None)"

text \<open>\<open>xs.slice(start)\<close>, with a negative \<open>start\<close> counting from the end.\<close>

definition slice_from :: "int \<Rightarrow> 'a list \<Rightarrow> 'a list" where
  "slice_from start xs =
     (if start < 0 then drop (nat (max (int (length xs) + start) 0)) xs
      else drop (nat start) xs)"

subsection \<open>Rendering the scan results\<close>

fun show_nat :: "nat \<Rightarrow> string" where
  "show_nat n =
     (if n < 10 then [digit_chars ! n] else show_nat (n div 10) @ [digit_chars ! (n mod 10)])"

fun join :: "string \<Rightarrow> string list \<Rightarrow> string" where
  "join sep [] = []"
| "join sep [x] = x"
| "join sep (x # y # ys) = x @ sep @ join sep (y # ys)"

text \<open>\<open>scanResults.map((result, index) => index === 0 ? result : `${index}. ${result}`)\<close>\<close>

definition number_results :: "string list \<Rightarrow> string list" where
  "number_results results =
     map (\<lambda>(index, result). if index = 0 then result else show_nat index @ ''. '' @ result)
       (zip [0 ..< length results] results)"

definition render_results :: "string \<Rightarrow> string list \<Rightarrow> string" where
  "render_results hint results =
     [CHR 0x0A] @ ''# Accessibility Scan Results'' @ [CHR 0x0A, CHR 0x0A]
       @ join [CHR 0x0A, CHR 0x0A] (number_results results) @ [CHR 0x0A, CHR 0x0A] @ ''> '' @ hint"

text \<open>
  The \<open>try\<close> block of every \<open>scan\<close> case: call the scan endpoint; on success store the
  extracted details under \<open>detailedScanResults\<close>, then the formatted lines under
  \<open>scanResults\<close>, and show them; on failure show the error and store nothing.
\<close>

definition run_scan :: "env \<Rightarrow> string \<Rightarrow> global_state \<Rightarrow> string \<Rightarrow> outcome" where
  "run_scan e hint st target =
     (case performAccessibilityScan e (apiUrl st) (apiKey st) target of
        (rs, Inr scanResponse) \<Rightarrow>
          (let st1 = st\<lparr>detailedScanResults := extractDetailedScanResults scanResponse\<rparr>;
               st2 = st1\<lparr>scanResults := formatScanResults scanResponse\<rparr>
           in say st2 [Scanning target, ScanResultsShown (render_results hint (scanResults st2))] rs)
      | (rs, Inl error) \<Rightarrow> say st [Scanning target, ScanFailed (error_message error)] rs)"

text \<open>
  The \<open>try\<close> block of every \<open>fix\<close> and \<open>explain\<close> case: query the endpoint, reject a
  response that is falsy or no object, show the formatted answer; \<open>failed\<close> builds the
  message of the \<open>catch\<close> block.
\<close>

definition run_query ::
  "env \<Rightarrow> (string \<Rightarrow> markdown) \<Rightarrow> global_state \<Rightarrow> string \<Rightarrow> string \<Rightarrow> outcome" where
  "run_query e failed st cmd query =
     (case queryAccessibilityApi e (apiUrl st) cmd (apiKey st) query of
        (rs, Inr None) \<Rightarrow> say st [failed ''Invalid response received from API''] rs
      | (rs, Inr (Some apiResponse)) \<Rightarrow> say st [Answer apiResponse] rs
      | (rs, Inl error) \<Rightarrow> say st [failed (error_message error)] rs)"

text \<open>
  The tail of every \<open>fix\<close> case, from the check of \<open>fixIndex\<close> (\<open>None\<close> is \<open>NaN\<close>) to
  the query; \<open>fix_query\<close> is the template literal of the handler version.
\<close>

definition run_fix ::
  "env \<Rightarrow> (DetailedViolation \<Rightarrow> string) \<Rightarrow> global_state \<Rightarrow> int option \<Rightarrow> outcome" where
  "run_fix e fix_query st fixIndex =
     (case fixIndex of
        None \<Rightarrow> say st [InvalidIssueNumber] []
      | Some k \<Rightarrow>
          if k < 0 \<or> k \<ge> int (length (scanResults st)) then say st [InvalidIssueNumber] []
          else
            (case array_get (violations (detailedScanResults st)) (k - 1) of
               None \<Rightarrow> say st [NoDetailedInformation] []
             | Some violation \<Rightarrow> run_query e FixFailed st ''fix'' (fix_query violation)))"

subsection \<open>The handler with explicit commands\<close>

definition fix_query_commands :: "DetailedViolation \<Rightarrow> string" where
  "fix_query_commands violation =
     ''Fix this accessibility issue:  '' @ [CHR 0x0A] @ replicate 24 (CHR '' '')
       @ ''Description: '' @ v_help violation @ [CHR 0x0A] @ replicate 24 (CHR '' '')
       @ ''HTML Context: '' @ v_html violation"

definition hint_commands :: string where
  "hint_commands = ''To fix an issue, use `/fix <issue number>`''"

text \<open>
  The first handler: a \<open>switch\<close> on \<open>request.command\<close>, with \<open>explain\<close> as the
  default.  It reads \<open>request.prompt\<close> untrimmed.
\<close>

definition handler_commands :: "env \<Rightarrow> global_state \<Rightarrow> chat_request \<Rightarrow> outcome" where
  "handler_commands e st request =
     (if command request = Some ''scan'' then
        (if prompt request = [] then say st [MissingUrl] []
         else if \<not> url_parses e (prompt request) then say st [InvalidUrlFormat] []
         else run_scan e hint_commands st (prompt request))
      else if command request = Some ''fix'' then
        (if length (scanResults st) = 0 then say st [NoScanResults] []
         else run_fix e fix_query_commands st (parseInt (prompt request)))
      else
        (if prompt request = [] then say st [MissingTopic] []
         else run_query e ExplainFailed st ''explain'' (prompt request)))"

subsection \<open>The handler that detects the intent with regular expressions\<close>

record detected =
  d_command :: string
  d_content :: string

definition detectIntent :: "string \<Rightarrow> detected" where
  "detectIntent query0 =
     (let query = trim (toLowerCase query0) in
      case urlPattern_match query of
        Some m \<Rightarrow> \<lparr>d_command = ''scan'', d_content = m\<rparr>
      | None \<Rightarrow>
          if fixPattern_test False query then \<lparr>d_command = ''fix'', d_content = query\<rparr>
          else \<lparr>d_command = ''explain'', d_content = query\<rparr>)"

definition fix_query_detect :: "DetailedViolation \<Rightarrow> string" where
  "fix_query_detect violation =
     ''Fix this accessibility issue:'' @ [CHR 0x0A, CHR 0x0A]
       @ ''Description: '' @ v_help violation @ [CHR 0x0A, CHR 0x0A]
       @ ''HTML Context: '' @ v_html violation"

definition hint_detect :: string where
  "hint_detect = ''To fix an issue, mention the issue number or describe the problem you want to fix.''"

text \<open>\<open>issueMatch ? parseInt(issueMatch[1], 10) : -1\<close>\<close>

definition issue_index :: "string \<Rightarrow> int option" where
  "issue_index content =
     (case issuePattern_match False content of
        Some ds \<Rightarrow> parseInt ds
      | None \<Rightarrow> Some (- 1))"

definition handler_detect :: "env \<Rightarrow> global_state \<Rightarrow> chat_request \<Rightarrow> outcome" where
  "handler_detect e st request =
     (let userQuery = trim (prompt request);
          d = detectIntent userQuery;
          content = d_content d
      in
      if d_command d = ''scan'' then
        (if content = [] then say st [MissingUrl] []
         else if \<not> url_parses e content then say st [InvalidUrlFormat] []
         else run_scan e hint_detect st content)
      else if d_command d = ''fix'' then
        (if length (scanResults st) = 0 then say st [NoScanResults] []
         else run_fix e fix_query_detect st (issue_index content))
      else
        (if content = [] then say st [MissingTopic] []
         else run_query e ExplainFailed st ''explain'' content))"

subsection \<open>The handlers that ask the intent analyser\<close>

definition fix_query_intent :: "DetailedViolation \<Rightarrow> string" where
  "fix_query_intent violation =
     ''Fix this accessibility issue:  '' @ [CHR 0x0A] @ replicate 28 (CHR '' '')
       @ ''Description: '' @ v_help violation @ [CHR 0x0A] @ replicate 28 (CHR '' '')
       @ ''HTML Context: '' @ v_html violation"

definition hint_intent :: string where
  "hint_intent = ''You can ask me to fix any specific issue by mentioning its number or describing the problem.''"


text \<open>\<open>a || b\<close> on an optional string: \<open>undefined\<close> and the empty string are falsy.\<close>

definition or_else :: "string option \<Rightarrow> string \<Rightarrow> string" where
  "or_else a b = (case a of None \<Rightarrow> b | Some x \<Rightarrow> if x = [] then b else x)"

text \<open>\<open>intentAnalysis.metadata?.issue_number || -1\<close>: \<open>undefined\<close> and 0 are falsy.\<close>

definition issue_number_or_minus_one :: "int option \<Rightarrow> int" where
  "issue_number_or_minus_one a = (case a of None \<Rightarrow> - 1 | Some n \<Rightarrow> if n = 0 then - 1 else n)"


text \<open>
  The \<open>switch\<close> on the analysed command.  The two versions differ in the URL they scan:
  the later one passes it through \<open>normalizeUrl\<close>, the earlier one takes it as it is
  (\<open>norm\<close>).  A command that is none of the three leaves the \<open>switch\<close> with nothing shown.
\<close>

definition dispatch_intent ::
  "env \<Rightarrow> (string \<Rightarrow> string) \<Rightarrow> global_state \<Rightarrow> IntentAnalysisResult \<Rightarrow> outcome" where
  "dispatch_intent e norm st intentAnalysis =
     (if i_command intentAnalysis = ''scan'' then
        (let url = or_else (m_url intentAnalysis) (i_content intentAnalysis) in
         if url = [] then say st [MissingUrl] []
         else if \<not> url_parses e (norm url) then say st [InvalidUrlFormat] []
         else run_scan e hint_intent st (norm url))
      else if i_command intentAnalysis = ''fix'' then
        (if length (scanResults st) = 0 then say st [NoScanResults] []
         else run_fix e fix_query_intent st
                (Some (issue_number_or_minus_one (m_issue_number intentAnalysis))))
      else if i_command intentAnalysis = ''explain'' then
        (let topic = or_else (m_topic intentAnalysis) (i_content intentAnalysis) in
         if topic = [] then say st [MissingTopic] []
         else run_query e ExplainFailed st ''explain'' topic)
      else say st [] [])"











definition issues_of :: "issues_value \<Rightarrow> issue list" where
  "issues_of v = (case v of NotAnArray \<Rightarrow> [] | IssueArray is \<Rightarrow> is)"

section \<open>The order of the severities in the specification\<close>

text \<open>
  The specification orders the violations by a fixed list of severities, and keeps the
  order of the response within each severity.  This is that order, written from the
  specification's words, to be compared with what \<open>extractDetailedScanResults\<close> builds.
\<close>

definition fixed_severity_order :: "string list" where
  "fixed_severity_order = [''critical'', ''serious'', ''moderate'', ''minor'']"

definition spec_violation_order :: "ScanResponse \<Rightarrow> DetailedViolation list" where
  "spec_violation_order r =
     (case raw_violations r of
        None \<Rightarrow> []
      | Some entries \<Rightarrow>
          concat (map (\<lambda>severity. case map_of entries severity of
                                     None \<Rightarrow> []
                                   | Some v \<Rightarrow> map issue_detail (issues_of v))
                    fixed_severity_order))"

section \<open>Notions of the specification about utterances\<close>

text \<open>
  A well-formed absolute URL token: the scheme \<open>http://\<close> or \<open>https://\<close> followed
  by at least one character, none of its characters white space.
\<close>

definition url_token :: "string \<Rightarrow> bool" where
  "url_token t =
     ((prefix ''https://'' t \<and> length t > 8 \<or> prefix ''http://'' t \<and> length t > 7)
      \<and> list_all (\<lambda>c. \<not> is_space c) t)"

text \<open>
  A URL starts at the beginning of a string: the scheme, and after it a character that
  is no white space.
\<close>

definition url_start :: "string \<Rightarrow> bool" where
  "url_start s =
     (prefix ''https://'' s \<and> length s > 8 \<and> \<not> is_space (s ! 8)
      \<or> prefix ''http://'' s \<and> length s > 7 \<and> \<not> is_space (s ! 7))"

text \<open>
  The bare integer tokens.  A text falls into maximal runs of word characters (letters,
  digits, underscore), separated by the other characters; a bare integer is such a run
  that consists of digits only, and the first bare integer is the first such run.
\<close>

function word_runs :: "string \<Rightarrow> string list" where
  "word_runs [] = []"
| "word_runs (c # cs) =
     (if is_word c then takeWhile is_word (c # cs) # word_runs (dropWhile is_word cs)
      else word_runs cs)"
  by pat_completeness auto
termination
  by (relation "measure length") (auto simp add: length_dropWhile_le less_Suc_eq_le)

definition first_bare_integer :: "string \<Rightarrow> string option" where
  "first_bare_integer s = find (list_all is_digit) (word_runs s)"

text \<open>The fixed keyword set of the lexical fix signal.\<close>

definition fix_keywords :: "string list" where
  "fix_keywords = [''fix'', ''issue'', ''problem'', ''error'', ''violation'']"

section \<open>Sample data\<close>

definition issue_alt :: issue where
  "issue_alt = \<lparr>issue_id = ''image-alt'', issue_description = ''Ensures images have alternate text'',
     issue_help = ''Images must have alternate text'', issue_html = ''<img src=logo.png>'',
     issue_impact = ''critical''\<rparr>"

definition issue_region :: issue where
  "issue_region = \<lparr>issue_id = ''region'', issue_description = ''Ensures content is in landmarks'',
     issue_help = ''All page content should be contained by landmarks'', issue_html = ''<div>text</div>'',
     issue_impact = ''minor''\<rparr>"

definition issue_contrast :: issue where
  "issue_contrast = \<lparr>issue_id = ''color-contrast'', issue_description = ''Ensures sufficient contrast'',
     issue_help = ''Elements must meet minimum color contrast'', issue_html = ''<p class=grey>x</p>'',
     issue_impact = ''serious''\<rparr>"

text \<open>A response that lists \<open>critical\<close> before \<open>minor\<close>, and one that lists them the other way round.\<close>

definition response_critical_minor :: ScanResponse where
  "response_critical_minor = \<lparr>resp_url = ''https://example.com'', scan_result = ''Found 2 violations'',
     raw_violations = Some [(''critical'', IssueArray [issue_alt]), (''minor'', IssueArray [issue_region])]\<rparr>"

definition response_minor_critical :: ScanResponse where
  "response_minor_critical = \<lparr>resp_url = ''https://example.com'', scan_result = ''Found 2 violations'',
     raw_violations = Some [(''minor'', IssueArray [issue_region]), (''critical'', IssueArray [issue_alt])]\<rparr>"

definition response_one :: ScanResponse where
  "response_one = \<lparr>resp_url = ''https://example.org'', scan_result = ''Found 1 violation'',
     raw_violations = Some [(''serious'', IssueArray [issue_contrast])]\<rparr>"

definition sample_answer :: AccessibilityResponse where
  "sample_answer = \<lparr>answer = ''Add an alt attribute'', explanation = ''Screen readers read it'',
     guidelines = ''WCAG 1.1.1'', examples = ''<img alt=Logo>''\<rparr>"

text \<open>
  An outside world in which every request succeeds (\<open>JSON.parse\<close> apart), parameterised
  by the scan response, and one in which the scan endpoint rejects with a given error.
\<close>

definition env_scan :: "ScanResponse \<Rightarrow> env" where
  "env_scan resp = \<lparr>json_parse = (\<lambda>s. Inl ''Unexpected end of JSON input''),
     post_query = (\<lambda>r. Inr (Some sample_answer)),
     post_scan = (\<lambda>r. Inr resp),
     post_intent = (\<lambda>r. Inl NonError),
     url_parses = (\<lambda>s. prefix ''http://'' s \<or> prefix ''https://'' s)\<rparr>"

definition env_scan_fails :: "js_error \<Rightarrow> env" where
  "env_scan_fails err = (env_scan response_one)\<lparr>post_scan := (\<lambda>r. Inl err)\<rparr>"


definition env_json :: "json \<Rightarrow> env" where
  "env_json parsed = (env_scan response_one)\<lparr>json_parse := (\<lambda>s. Inr parsed)\<rparr>"

definition state_initial :: global_state where
  "state_initial = \<lparr>scanResults = [], detailedScanResults = \<lparr>summary = [], violations = []\<rparr>,
     apiUrl = ''http://localhost:8000'', apiKey = ''sk-test'', previousCommands = []\<rparr>"

definition state_scanned :: global_state where
  "state_scanned = state_initial\<lparr>scanResults := formatScanResults response_critical_minor,
     detailedScanResults := extractDetailedScanResults response_critical_minor\<rparr>"




subsection \<open>The traversal as a list\<close>

text \<open>
  The issues the two loops visit, each with the severity key it is stored under, in the
  order of the visit.
\<close>

definition visited :: "(string \<times> issues_value) list option \<Rightarrow> (string \<times> issue) list" where
  "visited rv =
     (case rv of
        None \<Rightarrow> []
      | Some entries \<Rightarrow> concat (map (\<lambda>(severity, v). map (Pair severity) (issues_of v)) entries))"

lemma foldl_push: "foldl (\<lambda>res x. res @ [f x]) acc xs = acc @ map f xs"
  by (induction xs arbitrary: acc) simp_all

lemma format_entry_eq:
  "format_entry results (severity, v) = results @ map (issue_line severity) (issues_of v)"
  by (cases v) (simp_all add: format_entry_def issues_of_def foldl_push)

lemma extract_entry_eq:
  "extract_entry vs (severity, v) = vs @ map issue_detail (issues_of v)"
  by (cases v) (simp_all add: extract_entry_def issues_of_def foldl_push)

lemma foldl_format_entry:
  "foldl format_entry results entries =
     results @ map (\<lambda>(s, i). issue_line s i) (visited (Some entries))"
proof (induction entries arbitrary: results)
  case Nil
  show ?case by (simp add: visited_def)
next
  case (Cons e entries)
  obtain severity v where e: "e = (severity, v)" by (cases e)
  have "map (\<lambda>(s, i). issue_line s i) (map (Pair severity) (issues_of v))
          = map (issue_line severity) (issues_of v)"
    by simp
  with Cons.IH [of "format_entry results e"] show ?case
    by (simp add: e format_entry_eq visited_def)
qed

lemma foldl_extract_entry:
  "foldl extract_entry vs entries = vs @ map (\<lambda>(s, i). issue_detail i) (visited (Some entries))"
proof (induction entries arbitrary: vs)
  case Nil
  show ?case by (simp add: visited_def)
next
  case (Cons e entries)
  obtain severity v where e: "e = (severity, v)" by (cases e)
  have "map (\<lambda>(s, i). issue_detail i) (map (Pair severity) (issues_of v))
          = map issue_detail (issues_of v)"
    by simp
  with Cons.IH [of "extract_entry vs e"] show ?case
    by (simp add: e extract_entry_eq visited_def)
qed

lemma formatScanResults_visited:
  "formatScanResults r =
     (icon_chart @ '' '' @ scan_result r) # map (\<lambda>(s, i). issue_line s i) (visited (raw_violations r))"
  by (cases "raw_violations r") (simp_all add: formatScanResults_def foldl_format_entry visited_def)

lemma extract_violations_visited:
  "violations (extractDetailedScanResults r) = map (\<lambda>(s, i). issue_detail i) (visited (raw_violations r))"
  by (cases "raw_violations r") (simp_all add: extractDetailedScanResults_def foldl_extract_entry visited_def)

lemma extract_summary: "summary (extractDetailedScanResults r) = scan_result r"
  by (cases "raw_violations r") (simp_all add: extractDetailedScanResults_def)

lemma length_formatScanResults:
  "length (formatScanResults r) = Suc (length (violations (extractDetailedScanResults r)))"
  by (simp add: formatScanResults_visited extract_violations_visited)

lemma number_results_nth:
  "n < length results \<Longrightarrow>
   number_results results ! n = (if n = 0 then results ! 0 else show_nat n @ ''. '' @ results ! n)"
  by (simp add: number_results_def del: show_nat.simps)

section \<open>Claims about the formatter\<close>

text \<open>
  Claim C9.  For every scan response, \<open>formatScanResults\<close> and
  \<open>extractDetailedScanResults\<close> walk the violations in the same way: the formatted list is
  the summary line at index 0 followed by one display line per violation, so its length is
  the number of extracted violations plus one, and for every \<open>n\<close> from 1 to that number the
  line at index \<open>n\<close> is the icon and upper-cased name of some severity followed by the help
  text of \<open>violations[n - 1]\<close>; it is the line the handlers show with the number \<open>n\<close>
  in front.
\<close>

theorem C9_format_matches_extract:
  "length (formatScanResults r) = length (violations (extractDetailedScanResults r)) + 1
   \<and> formatScanResults r ! 0 = icon_chart @ '' '' @ scan_result r
   \<and> (\<forall>n. 1 \<le> n \<and> n \<le> length (violations (extractDetailedScanResults r)) \<longrightarrow>
          (\<exists>severity. formatScanResults r ! n =
             getSeverityIcon severity @ '' ['' @ toUpperCase severity @ ''] ''
               @ v_help (violations (extractDetailedScanResults r) ! (n - 1)))
          \<and> number_results (formatScanResults r) ! n = show_nat n @ ''. '' @ formatScanResults r ! n)"
proof (intro conjI allI impI)
  show "length (formatScanResults r) = length (violations (extractDetailedScanResults r)) + 1"
    by (simp add: length_formatScanResults)
  show "formatScanResults r ! 0 = icon_chart @ '' '' @ scan_result r"
    by (simp add: formatScanResults_visited)
next
  fix n
  assume n: "1 \<le> n \<and> n \<le> length (violations (extractDetailedScanResults r))"
  define vis where "vis = visited (raw_violations r)"
  from n have lt: "n - 1 < length vis"
    by (auto simp add: extract_violations_visited vis_def)
  obtain s i where si: "vis ! (n - 1) = (s, i)" by (cases "vis ! (n - 1)")
  from n have "formatScanResults r ! n = map (\<lambda>(s, i). issue_line s i) vis ! (n - 1)"
    by (cases n) (simp_all add: formatScanResults_visited vis_def)
  with lt si have line: "formatScanResults r ! n = issue_line s i"
    by simp
  from lt si have "violations (extractDetailedScanResults r) ! (n - 1) = issue_detail i"
    by (simp add: extract_violations_visited vis_def)
  with line have "formatScanResults r ! n =
      getSeverityIcon s @ '' ['' @ toUpperCase s @ ''] ''
        @ v_help (violations (extractDetailedScanResults r) ! (n - 1))"
    by (simp add: issue_line_def issue_detail_def)
  then show "\<exists>severity. formatScanResults r ! n =
      getSeverityIcon severity @ '' ['' @ toUpperCase severity @ ''] ''
        @ v_help (violations (extractDetailedScanResults r) ! (n - 1))"
    by blast
next
  fix n
  assume n: "1 \<le> n \<and> n \<le> length (violations (extractDetailedScanResults r))"
  then have "n < length (formatScanResults r)" and "n \<noteq> 0"
    by (simp_all add: length_formatScanResults)
  then show "number_results (formatScanResults r) ! n = show_nat n @ ''. '' @ formatScanResults r ! n"
    by (simp add: number_results_nth del: show_nat.simps)
qed

text \<open>The same, at a response with two violations.\<close>

theorem C9_format_matches_extract_witness:
  "1 \<le> (2::nat) \<and> 2 \<le> length (violations (extractDetailedScanResults response_critical_minor))
   \<and> (\<exists>severity. formatScanResults response_critical_minor ! 2 =
          getSeverityIcon severity @ '' ['' @ toUpperCase severity @ ''] ''
            @ v_help (violations (extractDetailedScanResults response_critical_minor) ! (2 - 1)))
   \<and> number_results (formatScanResults response_critical_minor) ! 2
       = show_nat 2 @ ''. '' @ formatScanResults response_critical_minor ! 2"
proof -
  have h: "1 \<le> (2::nat) \<and> 2 \<le> length (violations (extractDetailedScanResults response_critical_minor))"
    by (simp add: extract_violations_visited response_critical_minor_def visited_def issues_of_def)
  with C9_format_matches_extract [of response_critical_minor] show ?thesis
    by blast
qed

section \<open>What the handlers do to the state\<close>

lemma new_state_say [simp]: "new_state (say st ms rs) = st"
  and shown_say [simp]: "shown (say st ms rs) = ms"
  and sent_say [simp]: "sent (say st ms rs) = rs"
  by (simp_all add: say_def)

lemma run_query_state [simp]: "new_state (run_query e failed st cmd query) = st"
  by (simp add: run_query_def split: prod.splits sum.splits option.splits)

lemma run_fix_state [simp]: "new_state (run_fix e fq st k) = st"
  by (simp add: run_fix_def split: option.splits)

lemma run_scan_history [simp]:
  "previousCommands (new_state (run_scan e hint st target)) = previousCommands st"
  by (simp add: run_scan_def Let_def split: prod.splits sum.splits)

lemma dispatch_intent_history [simp]:
  "previousCommands (new_state (dispatch_intent e norm st ia)) = previousCommands st"
  by (simp add: dispatch_intent_def Let_def)


lemma slice_from_10_short: "length xs \<le> 10 \<Longrightarrow> slice_from (- 10) xs = xs"
  by (simp add: slice_from_def)








lemma run_scan_success:
  "apiKey st \<noteq> [] \<Longrightarrow> apiUrl st \<noteq> [] \<Longrightarrow>
   post_scan e \<lparr>req_url = apiUrl st @ ''/api/accessibility/scan'',
     req_body = ScanRequest target, req_key = apiKey st\<rparr> = Inr resp \<Longrightarrow>
   run_scan e hint st target =
     say (st\<lparr>detailedScanResults := extractDetailedScanResults resp,
             scanResults := formatScanResults resp\<rparr>)
       [Scanning target, ScanResultsShown (render_results hint (formatScanResults resp))]
       [\<lparr>req_url = apiUrl st @ ''/api/accessibility/scan'',
         req_body = ScanRequest target, req_key = apiKey st\<rparr>]"
  by (simp add: run_scan_def performAccessibilityScan_def Let_def)

lemma run_scan_failure:
  "apiKey st \<noteq> [] \<Longrightarrow> apiUrl st \<noteq> [] \<Longrightarrow>
   post_scan e \<lparr>req_url = apiUrl st @ ''/api/accessibility/scan'',
     req_body = ScanRequest target, req_key = apiKey st\<rparr> = Inl err \<Longrightarrow>
   run_scan e hint st target =
     say st [Scanning target, ScanFailed (error_message (translate_axios_error msg_invalid_request err))]
       [\<lparr>req_url = apiUrl st @ ''/api/accessibility/scan'',
         req_body = ScanRequest target, req_key = apiKey st\<rparr>]"
  by (simp add: run_scan_def performAccessibilityScan_def Let_def)

lemma run_scan_config [simp]:
  "apiKey (new_state (run_scan e hint st target)) = apiKey st"
  "apiUrl (new_state (run_scan e hint st target)) = apiUrl st"
  by (simp_all add: run_scan_def Let_def split: prod.splits sum.splits)

lemma handler_commands_config [simp]:
  "apiKey (new_state (handler_commands e st request)) = apiKey st"
  "apiUrl (new_state (handler_commands e st request)) = apiUrl st"
  "previousCommands (new_state (handler_commands e st request)) = previousCommands st"
  by (simp_all add: handler_commands_def)

lemma run_fix_out_of_range:
  "k < 1 \<or> int (length (violations (detailedScanResults st))) < k \<Longrightarrow>
   run_fix e fq st (Some k) =
     say st [if k < 0 \<or> int (length (scanResults st)) \<le> k then InvalidIssueNumber
             else NoDetailedInformation] []"
  by (auto simp add: run_fix_def array_get_def)

lemmas parseInt_eval =
  parseInt_def is_space_def is_digit_def digit_chars_def decimal_def digit_value_def

lemma state_scanned_eval:
  "scanResults state_scanned =
     [icon_chart @ '' Found 2 violations'',
      issue_line ''critical'' issue_alt, issue_line ''minor'' issue_region]"
  "violations (detailedScanResults state_scanned) = [issue_detail issue_alt, issue_detail issue_region]"
  by (simp_all add: state_scanned_def formatScanResults_visited extract_violations_visited
      response_critical_minor_def visited_def issues_of_def)

lemma distinct_scan_messages: "distinct [msg_invalid_key, msg_invalid_request, msg_no_connection]"
  by (simp add: msg_invalid_key_def msg_invalid_request_def msg_no_connection_def)

lemma handler_commands_scan_success:
  assumes "command request = Some ''scan''"
    and "prompt request \<noteq> []" and "url_parses e (prompt request)"
    and "apiKey st \<noteq> []" and "apiUrl st \<noteq> []"
    and "post_scan e \<lparr>req_url = apiUrl st @ ''/api/accessibility/scan'',
           req_body = ScanRequest (prompt request), req_key = apiKey st\<rparr> = Inr resp"
  shows "new_state (handler_commands e st request) =
           st\<lparr>detailedScanResults := extractDetailedScanResults resp,
               scanResults := formatScanResults resp\<rparr>"
  using assms by (simp add: handler_commands_def run_scan_success)

lemma overwrite_scan_fields:
  fixes st st' :: global_state
  assumes "apiKey st' = apiKey st" "apiUrl st' = apiUrl st" "previousCommands st' = previousCommands st"
  shows "st'\<lparr>detailedScanResults := d, scanResults := s\<rparr> = st\<lparr>detailedScanResults := d, scanResults := s\<rparr>"
  using assms by (intro global_state.equality) simp_all

lemma fix_query_not_json: "\<not> prefix ''{'' (fix_query_commands v)"
  by (simp add: fix_query_commands_def)

lemma run_fix_in_range:
  assumes "1 \<le> k" and "k \<le> int (length (violations (detailedScanResults st)))"
    and "k < int (length (scanResults st))"
  shows "sent (run_fix e fix_query_commands st (Some k)) =
     [\<lparr>req_url = apiUrl st @ ''/api/accessibility/fix'',
       req_body = QueryObject (fix_query_commands (violations (detailedScanResults st) ! nat (k - 1))),
       req_key = apiKey st\<rparr>]"
  using assms
  by (simp add: run_fix_def array_get_def run_query_def queryAccessibilityApi_def query_data_def
      fix_query_not_json Let_def split: sum.splits option.splits)

lemma subseq_subset: "subseq xs ys \<Longrightarrow> set xs \<subseteq> set ys"
  by (induction rule: list_emb.induct) auto

lemma lookup_order:
  "distinct order \<Longrightarrow> subseq (map fst entries) order \<Longrightarrow>
   concat (map (\<lambda>s. case map_of entries s of None \<Rightarrow> [] | Some v \<Rightarrow> f v) order)
     = concat (map (\<lambda>(s, v). f v) entries)"
proof (induction order arbitrary: entries)
  case Nil
  then have "entries = []" by (cases entries) auto
  then show ?case by simp
next
  case (Cons s order)
  from Cons.prems have fresh: "s \<notin> set order" and dist: "distinct order" by simp_all
  show ?case
  proof (cases entries)
    case Nil
    then show ?thesis by simp
  next
    case entries: (Cons kv es)
    obtain k v where kv: "kv = (k, v)" by (cases kv)
    show ?thesis
    proof (cases "k = s")
      case True
      with Cons.prems entries kv have sub: "subseq (map fst es) order" by simp
      have "concat (map (\<lambda>s'. case map_of entries s' of None \<Rightarrow> [] | Some v \<Rightarrow> f v) order)
          = concat (map (\<lambda>s'. case map_of es s' of None \<Rightarrow> [] | Some v \<Rightarrow> f v) order)"
        using fresh by (intro arg_cong [where f = concat] map_cong) (auto simp: entries kv True)
      also have "\<dots> = concat (map (\<lambda>(s, v). f v) es)"
        using dist sub by (rule Cons.IH)
      finally show ?thesis by (simp add: entries kv True)
    next
      case False
      with Cons.prems entries kv have sub: "subseq (map fst entries) order" by simp
      then have "set (map fst entries) \<subseteq> set order"
        by (rule subseq_subset)
      with fresh have "s \<notin> fst ` set entries" by auto
      then have "map_of entries s = None" by (simp add: map_of_eq_None_iff)
      moreover have "concat (map (\<lambda>s'. case map_of entries s' of None \<Rightarrow> [] | Some v \<Rightarrow> f v) order)
          = concat (map (\<lambda>(s, v). f v) entries)"
        using dist sub by (rule Cons.IH)
      ultimately show ?thesis by simp
    qed
  qed
qed

lemma spec_order_agrees:
  "raw_violations r = Some entries \<Longrightarrow> subseq (map fst entries) fixed_severity_order \<Longrightarrow>
   violations (extractDetailedScanResults r) = spec_violation_order r"
proof -
  assume rv: "raw_violations r = Some entries" and sub: "subseq (map fst entries) fixed_severity_order"
  have d: "distinct fixed_severity_order" by (simp add: fixed_severity_order_def)
  have "map (\<lambda>(s, i). issue_detail i) (visited (Some entries))
      = concat (map (\<lambda>(s, v). map issue_detail (issues_of v)) entries)"
    by (induction entries) (auto simp: visited_def)
  with lookup_order [OF d sub, of "\<lambda>v. map issue_detail (issues_of v)"] rv show ?thesis
    by (simp add: extract_violations_visited spec_violation_order_def)
qed

section \<open>Claims about the handler with explicit commands\<close>

text \<open>
  Claim C4.  A \<open>/fix\<close> whose issue index \<open>k\<close> lies outside \<open>1 .. length violations\<close>
  (zero, negative or past the end) ends in a guidance message: no request is sent, the
  stored state is unchanged, and every step is defined.  Which message it is depends on
  the check that stops it: no scan results at all, an index that is negative or not below
  the number of stored lines, or (index 0, or lines and violations out of step) no
  violation at \<open>k - 1\<close>.
\<close>

theorem C4_fix_out_of_range:
  assumes "command request = Some ''fix''"
    and "parseInt (prompt request) = Some k"
    and "k < 1 \<or> int (length (violations (detailedScanResults st))) < k"
  shows "new_state (handler_commands e st request) = st
    \<and> sent (handler_commands e st request) = []
    \<and> shown (handler_commands e st request) =
        [if scanResults st = [] then NoScanResults
         else if k < 0 \<or> int (length (scanResults st)) \<le> k then InvalidIssueNumber
         else NoDetailedInformation]"
  using assms by (simp add: handler_commands_def run_fix_out_of_range)

text \<open>After a scan with two violations, \<open>/fix 5\<close> and \<open>/fix 0\<close>.\<close>

theorem C4_fix_out_of_range_witness:
  "parseInt ''5'' = Some 5
   \<and> int (length (violations (detailedScanResults state_scanned))) < 5
   \<and> new_state (handler_commands (env_scan response_one) state_scanned
        \<lparr>command = Some ''fix'', prompt = ''5''\<rparr>) = state_scanned
   \<and> sent (handler_commands (env_scan response_one) state_scanned
        \<lparr>command = Some ''fix'', prompt = ''5''\<rparr>) = []
   \<and> shown (handler_commands (env_scan response_one) state_scanned
        \<lparr>command = Some ''fix'', prompt = ''5''\<rparr>) = [InvalidIssueNumber]
   \<and> parseInt ''0'' = Some 0
   \<and> shown (handler_commands (env_scan response_one) state_scanned
        \<lparr>command = Some ''fix'', prompt = ''0''\<rparr>) = [NoDetailedInformation]"
proof -
  have p5: "parseInt ''5'' = Some 5" and p0: "parseInt ''0'' = Some 0"
    by (simp_all add: parseInt_eval)
  have len: "int (length (violations (detailedScanResults state_scanned))) < 5"
    by (simp add: state_scanned_eval)
  from C4_fix_out_of_range [of "\<lparr>command = Some ''fix'', prompt = ''5''\<rparr>" 5 state_scanned
         "env_scan response_one"]
       C4_fix_out_of_range [of "\<lparr>command = Some ''fix'', prompt = ''0''\<rparr>" 0 state_scanned
         "env_scan response_one"]
       p5 p0 len
  show ?thesis by (simp add: state_scanned_eval)
qed

text \<open>
  Claim C6, as the code has it.  An explicit \<open>/fix\<close> whose text, of ASCII characters,
  \<open>parseInt\<close> cannot read (no digit after optional white space and sign) sends no request
  and leaves the state as it is.  The message is the invalid-issue-number one when scan
  results are stored; when none are stored the handler has already answered that there
  are no scan results, before it looks at the text.
\<close>

theorem C6_fix_not_a_number:
  assumes "command request = Some ''fix''"
    and "ascii_text (prompt request)"
    and "parseInt (prompt request) = None"
  shows "new_state (handler_commands e st request) = st
    \<and> sent (handler_commands e st request) = []
    \<and> shown (handler_commands e st request) =
        [if scanResults st = [] then NoScanResults else InvalidIssueNumber]"
  using assms by (simp add: handler_commands_def run_fix_def)

theorem C6_fix_not_a_number_witness:
  "ascii_text ''abc'' \<and> parseInt ''abc'' = None
   \<and> new_state (handler_commands (env_scan response_one) state_scanned
        \<lparr>command = Some ''fix'', prompt = ''abc''\<rparr>) = state_scanned
   \<and> sent (handler_commands (env_scan response_one) state_scanned
        \<lparr>command = Some ''fix'', prompt = ''abc''\<rparr>) = []
   \<and> shown (handler_commands (env_scan response_one) state_scanned
        \<lparr>command = Some ''fix'', prompt = ''abc''\<rparr>) = [InvalidIssueNumber]"
proof -
  have a: "ascii_text ''abc''" by code_simp
  have p: "parseInt ''abc'' = None"
    by (simp add: parseInt_eval)
  from C6_fix_not_a_number [of "\<lparr>command = Some ''fix'', prompt = ''abc''\<rparr>" "env_scan response_one"
         state_scanned] a p
  show ?thesis by (simp add: state_scanned_eval)
qed

text \<open>
  The claim as it is written fails before any scan: \<open>/fix abc\<close> is answered with the
  no-scan-results message, not with the invalid-issue-number one.
\<close>

theorem C6_counterexample:
  "parseInt ''abc'' = None
   \<and> scanResults state_initial = []
   \<and> shown (handler_commands (env_scan response_one) state_initial
        \<lparr>command = Some ''fix'', prompt = ''abc''\<rparr>) = [NoScanResults]
   \<and> shown (handler_commands (env_scan response_one) state_initial
        \<lparr>command = Some ''fix'', prompt = ''abc''\<rparr>) \<noteq> [InvalidIssueNumber]"
  by (simp add: handler_commands_def state_initial_def parseInt_eval)

text \<open>
  Claim C8.  When the scan request is sent and fails, the state is left exactly as it was
  and the handler shows the scanning notice followed by the scan error.  Its text tells
  the causes apart: a response with status 401 gives the API-key message, status 400 the
  bad-request message, a refused connection the cannot-connect message, and the three
  differ; any other failure shows its own message.
\<close>

theorem C8_scan_failure:
  assumes "command request = Some ''scan''"
    and "prompt request \<noteq> []" and "url_parses e (prompt request)"
    and "apiKey st \<noteq> []" and "apiUrl st \<noteq> []"
    and "post_scan e \<lparr>req_url = apiUrl st @ ''/api/accessibility/scan'',
           req_body = ScanRequest (prompt request), req_key = apiKey st\<rparr> = Inl err"
  shows "new_state (handler_commands e st request) = st
    \<and> shown (handler_commands e st request) =
        [Scanning (prompt request),
         ScanFailed (case err of
             AxiosError status code m \<Rightarrow>
               if status = Some 401 then msg_invalid_key
               else if status = Some 400 then msg_invalid_request
               else if code = Some ''ECONNREFUSED'' then msg_no_connection
               else m
           | Error m \<Rightarrow> m
           | NonError \<Rightarrow> ''unknown error'')]
    \<and> distinct [msg_invalid_key, msg_invalid_request, msg_no_connection]"
  using assms
  by (cases err) (simp_all add: handler_commands_def run_scan_failure
      translate_axios_error_def error_message_def distinct_scan_messages [simplified])

text \<open>A scan that is refused with status 401, after an earlier scan.\<close>

theorem C8_scan_failure_witness:
  "url_parses (env_scan_fails (AxiosError (Some 401) None ''Request failed with status code 401''))
      ''https://example.org''
   \<and> apiKey state_scanned \<noteq> [] \<and> apiUrl state_scanned \<noteq> []
   \<and> new_state (handler_commands
        (env_scan_fails (AxiosError (Some 401) None ''Request failed with status code 401''))
        state_scanned \<lparr>command = Some ''scan'', prompt = ''https://example.org''\<rparr>) = state_scanned
   \<and> shown (handler_commands
        (env_scan_fails (AxiosError (Some 401) None ''Request failed with status code 401''))
        state_scanned \<lparr>command = Some ''scan'', prompt = ''https://example.org''\<rparr>)
       = [Scanning ''https://example.org'', ScanFailed msg_invalid_key]"
proof -
  let ?e = "env_scan_fails (AxiosError (Some 401) None ''Request failed with status code 401'')"
  have u: "url_parses ?e ''https://example.org''"
    by (simp add: env_scan_fails_def env_scan_def)
  have k: "apiKey state_scanned \<noteq> []" "apiUrl state_scanned \<noteq> []"
    by (simp_all add: state_scanned_def state_initial_def)
  have p: "post_scan ?e \<lparr>req_url = apiUrl state_scanned @ ''/api/accessibility/scan'',
           req_body = ScanRequest ''https://example.org'', req_key = apiKey state_scanned\<rparr>
         = Inl (AxiosError (Some 401) None ''Request failed with status code 401'')"
    by (simp add: env_scan_fails_def env_scan_def)
  from C8_scan_failure [of "\<lparr>command = Some ''scan'', prompt = ''https://example.org''\<rparr>" ?e
         state_scanned "AxiosError (Some 401) None ''Request failed with status code 401''"]
       u k p
  show ?thesis by simp
qed

text \<open>
  Claim C7.  A successful scan replaces the stored scan results as a whole.  Whatever
  turn came before it (a successful scan A among the cases), after scan B succeeds the
  state is the state before both with B's extracted violations and B's formatted lines
  in it, and nothing of A.  A later \<open>/fix k\<close> therefore reads B's violations only: for
  \<open>k\<close> from 1 to their number it asks for a fix of B's violation \<open>k - 1\<close>, and for a
  larger \<open>k\<close> it is refused, whether or not \<open>k\<close> was an issue number of A.
\<close>

theorem C7_scan_replaces:
  assumes "apiKey st \<noteq> []" and "apiUrl st \<noteq> []"
    and "command requestB = Some ''scan''"
    and "prompt requestB \<noteq> []" and "url_parses eB (prompt requestB)"
    and "post_scan eB \<lparr>req_url = apiUrl st @ ''/api/accessibility/scan'',
           req_body = ScanRequest (prompt requestB), req_key = apiKey st\<rparr> = Inr respB"
  shows "(let stB = new_state (handler_commands eB
                      (new_state (handler_commands eA st requestA)) requestB)
          in stB = st\<lparr>detailedScanResults := extractDetailedScanResults respB,
                       scanResults := formatScanResults respB\<rparr>
           \<and> (\<forall>e k requestF.
                 command requestF = Some ''fix'' \<and> parseInt (prompt requestF) = Some k \<longrightarrow>
                   (1 \<le> k \<and> k \<le> int (length (violations (extractDetailedScanResults respB))) \<longrightarrow>
                      sent (handler_commands e stB requestF) =
                        [\<lparr>req_url = apiUrl st @ ''/api/accessibility/fix'',
                          req_body = QueryObject (fix_query_commands
                            (violations (extractDetailedScanResults respB) ! nat (k - 1))),
                          req_key = apiKey st\<rparr>])
                   \<and> (int (length (violations (extractDetailedScanResults respB))) < k \<longrightarrow>
                      sent (handler_commands e stB requestF) = []
                      \<and> shown (handler_commands e stB requestF) = [InvalidIssueNumber])))"
proof -
  define stA where "stA = new_state (handler_commands eA st requestA)"
  define stB where "stB = new_state (handler_commands eB stA requestB)"
  define stB' where "stB' = st\<lparr>detailedScanResults := extractDetailedScanResults respB,
                       scanResults := formatScanResults respB\<rparr>"
  have cfg: "apiKey stA = apiKey st" "apiUrl stA = apiUrl st" "previousCommands stA = previousCommands st"
    by (simp_all add: stA_def)
  from assms cfg have "stB = stA\<lparr>detailedScanResults := extractDetailedScanResults respB,
                       scanResults := formatScanResults respB\<rparr>"
    unfolding stB_def by (intro handler_commands_scan_success) simp_all
  also from cfg have "\<dots> = stB'"
    unfolding stB'_def by (rule overwrite_scan_fields)
  finally have eq: "stB = stB'" .
  have lines: "int (length (scanResults stB')) = int (length (violations (detailedScanResults stB'))) + 1"
    by (simp add: stB'_def length_formatScanResults)
  have nonempty: "scanResults stB' \<noteq> []"
    by (simp add: stB'_def formatScanResults_visited)
  have fx: "(1 \<le> k \<and> k \<le> int (length (violations (extractDetailedScanResults respB))) \<longrightarrow>
                sent (handler_commands e stB' requestF) =
                  [\<lparr>req_url = apiUrl st @ ''/api/accessibility/fix'',
                    req_body = QueryObject (fix_query_commands
                      (violations (extractDetailedScanResults respB) ! nat (k - 1))),
                    req_key = apiKey st\<rparr>])
             \<and> (int (length (violations (extractDetailedScanResults respB))) < k \<longrightarrow>
                sent (handler_commands e stB' requestF) = []
                \<and> shown (handler_commands e stB' requestF) = [InvalidIssueNumber])"
    if f: "command requestF = Some ''fix''" "parseInt (prompt requestF) = Some k" for e k requestF
  proof (intro conjI impI)
    assume k: "1 \<le> k \<and> k \<le> int (length (violations (extractDetailedScanResults respB)))"
    with lines have "k < int (length (scanResults stB'))"
      by (simp add: stB'_def)
    with k have "sent (run_fix e fix_query_commands stB' (Some k)) =
       [\<lparr>req_url = apiUrl stB' @ ''/api/accessibility/fix'',
         req_body = QueryObject (fix_query_commands (violations (detailedScanResults stB') ! nat (k - 1))),
         req_key = apiKey stB'\<rparr>]"
      by (intro run_fix_in_range) (simp_all add: stB'_def)
    with f nonempty show "sent (handler_commands e stB' requestF) =
                  [\<lparr>req_url = apiUrl st @ ''/api/accessibility/fix'',
                    req_body = QueryObject (fix_query_commands
                      (violations (extractDetailedScanResults respB) ! nat (k - 1))),
                    req_key = apiKey st\<rparr>]"
      by (simp add: handler_commands_def stB'_def)
  next
    assume k: "int (length (violations (extractDetailedScanResults respB))) < k"
    then have out: "k < 1 \<or> int (length (violations (detailedScanResults stB'))) < k"
      by (simp add: stB'_def)
    from k lines have big: "int (length (scanResults stB')) \<le> k"
      by (simp add: stB'_def)
    from f nonempty big show "sent (handler_commands e stB' requestF) = []"
      by (simp add: handler_commands_def run_fix_out_of_range [OF out])
    from f nonempty big show "shown (handler_commands e stB' requestF) = [InvalidIssueNumber]"
      by (simp add: handler_commands_def run_fix_out_of_range [OF out])
  qed
  have "\<forall>e k requestF.
                 command requestF = Some ''fix'' \<and> parseInt (prompt requestF) = Some k \<longrightarrow>
                   (1 \<le> k \<and> k \<le> int (length (violations (extractDetailedScanResults respB))) \<longrightarrow>
                      sent (handler_commands e stB' requestF) =
                        [\<lparr>req_url = apiUrl st @ ''/api/accessibility/fix'',
                          req_body = QueryObject (fix_query_commands
                            (violations (extractDetailedScanResults respB) ! nat (k - 1))),
                          req_key = apiKey st\<rparr>])
                   \<and> (int (length (violations (extractDetailedScanResults respB))) < k \<longrightarrow>
                      sent (handler_commands e stB' requestF) = []
                      \<and> shown (handler_commands e stB' requestF) = [InvalidIssueNumber])"
  proof (intro allI impI)
    fix e :: env and k :: int and requestF :: chat_request
    assume a: "command requestF = Some ''fix'' \<and> parseInt (prompt requestF) = Some k"
    from a have "command requestF = Some ''fix''" and "parseInt (prompt requestF) = Some k"
      by simp_all
    then show "(1 \<le> k \<and> k \<le> int (length (violations (extractDetailedScanResults respB))) \<longrightarrow>
                      sent (handler_commands e stB' requestF) =
                        [\<lparr>req_url = apiUrl st @ ''/api/accessibility/fix'',
                          req_body = QueryObject (fix_query_commands
                            (violations (extractDetailedScanResults respB) ! nat (k - 1))),
                          req_key = apiKey st\<rparr>])
                   \<and> (int (length (violations (extractDetailedScanResults respB))) < k \<longrightarrow>
                      sent (handler_commands e stB' requestF) = []
                      \<and> shown (handler_commands e stB' requestF) = [InvalidIssueNumber])"
      by (rule fx)
  qed
  with eq show ?thesis
    unfolding Let_def stB_def [symmetric, unfolded stA_def [symmetric]] stA_def [symmetric]
    by (simp add: stB'_def)
qed

text \<open>
  Scan A finds two violations, scan B one.  \<open>/fix 2\<close> named a violation of A; after B it
  is refused, and \<open>/fix 1\<close> asks about B's only violation.
\<close>

theorem C7_scan_replaces_witness:
  "apiKey state_initial \<noteq> [] \<and> apiUrl state_initial \<noteq> []
   \<and> url_parses (env_scan response_one) ''https://example.org''
   \<and> parseInt ''2'' = Some 2 \<and> parseInt ''1'' = Some 1
   \<and> violations (extractDetailedScanResults response_one) = [issue_detail issue_contrast]
   \<and> new_state (handler_commands (env_scan response_one)
        (new_state (handler_commands (env_scan response_critical_minor) state_initial
           \<lparr>command = Some ''scan'', prompt = ''https://example.com''\<rparr>))
        \<lparr>command = Some ''scan'', prompt = ''https://example.org''\<rparr>)
       = state_initial\<lparr>detailedScanResults := extractDetailedScanResults response_one,
           scanResults := formatScanResults response_one\<rparr>
   \<and> shown (handler_commands (env_scan response_one)
        (new_state (handler_commands (env_scan response_one)
           (new_state (handler_commands (env_scan response_critical_minor) state_initial
              \<lparr>command = Some ''scan'', prompt = ''https://example.com''\<rparr>))
           \<lparr>command = Some ''scan'', prompt = ''https://example.org''\<rparr>))
        \<lparr>command = Some ''fix'', prompt = ''2''\<rparr>) = [InvalidIssueNumber]
   \<and> sent (handler_commands (env_scan response_one)
        (new_state (handler_commands (env_scan response_one)
           (new_state (handler_commands (env_scan response_critical_minor) state_initial
              \<lparr>command = Some ''scan'', prompt = ''https://example.com''\<rparr>))
           \<lparr>command = Some ''scan'', prompt = ''https://example.org''\<rparr>))
        \<lparr>command = Some ''fix'', prompt = ''1''\<rparr>)
       = [\<lparr>req_url = apiUrl state_initial @ ''/api/accessibility/fix'',
           req_body = QueryObject (fix_query_commands (issue_detail issue_contrast)),
           req_key = apiKey state_initial\<rparr>]"
proof -
  let ?reqA = "\<lparr>command = Some ''scan'', prompt = ''https://example.com''\<rparr>"
  let ?reqB = "\<lparr>command = Some ''scan'', prompt = ''https://example.org''\<rparr>"
  let ?fix1 = "\<lparr>command = Some ''fix'', prompt = ''1''\<rparr>"
  let ?fix2 = "\<lparr>command = Some ''fix'', prompt = ''2''\<rparr>"
  let ?e = "env_scan response_one"
  have k: "apiKey state_initial \<noteq> []" "apiUrl state_initial \<noteq> []"
    by (simp_all add: state_initial_def)
  have c: "command ?reqB = Some ''scan''" and nz: "prompt ?reqB \<noteq> []"
    by simp_all
  have u: "url_parses ?e (prompt ?reqB)"
    by (simp add: env_scan_def)
  have u': "url_parses ?e ''https://example.org''"
    by (simp add: env_scan_def)
  have p: "post_scan ?e
      \<lparr>req_url = apiUrl state_initial @ ''/api/accessibility/scan'',
        req_body = ScanRequest (prompt ?reqB), req_key = apiKey state_initial\<rparr>
      = Inr response_one"
    by (simp add: env_scan_def)
  have n2: "parseInt ''2'' = Some 2" and n1: "parseInt ''1'' = Some 1"
    by (simp_all add: parseInt_eval)
  have v: "violations (extractDetailedScanResults response_one) = [issue_detail issue_contrast]"
    by (simp add: extract_violations_visited response_one_def visited_def issues_of_def)
  note main = C7_scan_replaces [OF k c nz u p, of "env_scan response_critical_minor" ?reqA,
      unfolded Let_def]
  note st = main [THEN conjunct1]
  note fx = main [THEN conjunct2, THEN spec, THEN spec, THEN spec, THEN mp]
  have f2: "command ?fix2 = Some ''fix'' \<and> parseInt (prompt ?fix2) = Some 2"
    using n2 by simp
  have f1: "command ?fix1 = Some ''fix'' \<and> parseInt (prompt ?fix1) = Some 1"
    using n1 by simp
  have big: "int (length (violations (extractDetailedScanResults response_one))) < 2"
    and small: "1 \<le> (1::int) \<and> 1 \<le> int (length (violations (extractDetailedScanResults response_one)))"
    by (simp_all add: v)
  note r2 = fx [OF f2, of ?e, THEN conjunct2, THEN mp, OF big, THEN conjunct2]
  note r1 = fx [OF f1, of ?e, THEN conjunct1, THEN mp, OF small]
  have idx: "violations (extractDetailedScanResults response_one) ! nat (1 - 1) = issue_detail issue_contrast"
    by (simp add: v)
  from k u' n2 n1 v st r2 r1 [unfolded idx] show ?thesis
    by (intro conjI)
qed

section \<open>Claims about the order of the violations\<close>

text \<open>
  Claim C3, as the code has it.  The violations are listed by severity in the order in
  which the response object lists its severity keys, with the response's order kept
  inside each severity.  Whenever the response lists its keys in the order critical,
  serious, moderate, minor (some of them possibly absent), that is the order of the
  specification.  For a response that lists \<open>critical: [v1]\<close> and then \<open>minor: [v2]\<close>
  the violations are \<open>[v1, v2]\<close>, and with that scan stored \<open>/fix 1\<close> asks about \<open>v1\<close>
  and \<open>/fix 2\<close> about \<open>v2\<close>.
\<close>

theorem C3_violation_order:
  "violations (extractDetailedScanResults r) =
     (case raw_violations r of
        None \<Rightarrow> []
      | Some entries \<Rightarrow> concat (map (\<lambda>(severity, v). map issue_detail (issues_of v)) entries))
   \<and> (\<forall>entries. raw_violations r = Some entries \<and> subseq (map fst entries) fixed_severity_order \<longrightarrow>
         violations (extractDetailedScanResults r) = spec_violation_order r)
   \<and> (raw_violations r = Some [(''critical'', IssueArray [v1]), (''minor'', IssueArray [v2])] \<longrightarrow>
         violations (extractDetailedScanResults r) = [issue_detail v1, issue_detail v2]
         \<and> sent (handler_commands e
               (st\<lparr>detailedScanResults := extractDetailedScanResults r,
                   scanResults := formatScanResults r\<rparr>)
               \<lparr>command = Some ''fix'', prompt = ''1''\<rparr>)
             = [\<lparr>req_url = apiUrl st @ ''/api/accessibility/fix'',
                 req_body = QueryObject (fix_query_commands (issue_detail v1)), req_key = apiKey st\<rparr>]
         \<and> sent (handler_commands e
               (st\<lparr>detailedScanResults := extractDetailedScanResults r,
                   scanResults := formatScanResults r\<rparr>)
               \<lparr>command = Some ''fix'', prompt = ''2''\<rparr>)
             = [\<lparr>req_url = apiUrl st @ ''/api/accessibility/fix'',
                 req_body = QueryObject (fix_query_commands (issue_detail v2)), req_key = apiKey st\<rparr>])"
proof (intro conjI allI impI)
  show "violations (extractDetailedScanResults r) =
     (case raw_violations r of
        None \<Rightarrow> []
      | Some entries \<Rightarrow> concat (map (\<lambda>(severity, v). map issue_detail (issues_of v)) entries))"
  proof (cases "raw_violations r")
    case None
    then show ?thesis by (simp add: extract_violations_visited visited_def)
  next
    case (Some entries)
    have "map (\<lambda>(s, i). issue_detail i) (visited (Some entries))
        = concat (map (\<lambda>(s, v). map issue_detail (issues_of v)) entries)"
      by (induction entries) (auto simp: visited_def)
    with Some show ?thesis by (simp add: extract_violations_visited)
  qed
next
  fix entries
  assume "raw_violations r = Some entries \<and> subseq (map fst entries) fixed_severity_order"
  then show "violations (extractDetailedScanResults r) = spec_violation_order r"
    by (simp add: spec_order_agrees)
next
  assume rv: "raw_violations r = Some [(''critical'', IssueArray [v1]), (''minor'', IssueArray [v2])]"
  define st' where "st' = st\<lparr>detailedScanResults := extractDetailedScanResults r,
                   scanResults := formatScanResults r\<rparr>"
  from rv show vs: "violations (extractDetailedScanResults r) = [issue_detail v1, issue_detail v2]"
    by (simp add: extract_violations_visited visited_def issues_of_def)
  from rv have len: "length (scanResults st') = 3"
    by (simp add: st'_def formatScanResults_visited visited_def issues_of_def)
  have one: "parseInt ''1'' = Some 1" and two: "parseInt ''2'' = Some 2"
    by (simp_all add: parseInt_eval)
  from vs len have "sent (run_fix e fix_query_commands st' (Some 1)) =
       [\<lparr>req_url = apiUrl st' @ ''/api/accessibility/fix'',
         req_body = QueryObject (fix_query_commands (violations (detailedScanResults st') ! nat (1 - 1))),
         req_key = apiKey st'\<rparr>]"
    by (intro run_fix_in_range) (simp_all add: st'_def)
  with vs len one show "sent (handler_commands e
               (st\<lparr>detailedScanResults := extractDetailedScanResults r,
                   scanResults := formatScanResults r\<rparr>)
               \<lparr>command = Some ''fix'', prompt = ''1''\<rparr>)
             = [\<lparr>req_url = apiUrl st @ ''/api/accessibility/fix'',
                 req_body = QueryObject (fix_query_commands (issue_detail v1)), req_key = apiKey st\<rparr>]"
    by (simp add: handler_commands_def st'_def)
  from vs len have "sent (run_fix e fix_query_commands st' (Some 2)) =
       [\<lparr>req_url = apiUrl st' @ ''/api/accessibility/fix'',
         req_body = QueryObject (fix_query_commands (violations (detailedScanResults st') ! nat (2 - 1))),
         req_key = apiKey st'\<rparr>]"
    by (intro run_fix_in_range) (simp_all add: st'_def)
  with vs len two show "sent (handler_commands e
               (st\<lparr>detailedScanResults := extractDetailedScanResults r,
                   scanResults := formatScanResults r\<rparr>)
               \<lparr>command = Some ''fix'', prompt = ''2''\<rparr>)
             = [\<lparr>req_url = apiUrl st @ ''/api/accessibility/fix'',
                 req_body = QueryObject (fix_query_commands (issue_detail v2)), req_key = apiKey st\<rparr>]"
    by (simp add: handler_commands_def st'_def)
qed

text \<open>The response that lists \<open>critical\<close> and then \<open>minor\<close>.\<close>

theorem C3_violation_order_witness:
  "raw_violations response_critical_minor
     = Some [(''critical'', IssueArray [issue_alt]), (''minor'', IssueArray [issue_region])]
   \<and> subseq (map fst [(''critical'', IssueArray [issue_alt]), (''minor'', IssueArray [issue_region])])
        fixed_severity_order
   \<and> violations (extractDetailedScanResults response_critical_minor)
       = [issue_detail issue_alt, issue_detail issue_region]
   \<and> violations (extractDetailedScanResults response_critical_minor)
       = spec_violation_order response_critical_minor
   \<and> sent (handler_commands (env_scan response_critical_minor) state_scanned
        \<lparr>command = Some ''fix'', prompt = ''2''\<rparr>)
       = [\<lparr>req_url = apiUrl state_initial @ ''/api/accessibility/fix'',
           req_body = QueryObject (fix_query_commands (issue_detail issue_region)),
           req_key = apiKey state_initial\<rparr>]"
proof -
  have rv: "raw_violations response_critical_minor
     = Some [(''critical'', IssueArray [issue_alt]), (''minor'', IssueArray [issue_region])]"
    by (simp add: response_critical_minor_def)
  have sub: "subseq (map fst [(''critical'', IssueArray [issue_alt]), (''minor'', IssueArray [issue_region])])
        fixed_severity_order"
    by (simp add: fixed_severity_order_def)
  have st: "state_scanned = state_initial\<lparr>detailedScanResults := extractDetailedScanResults response_critical_minor,
        scanResults := formatScanResults response_critical_minor\<rparr>"
    by (simp add: state_scanned_def)
  note order = C3_violation_order [of response_critical_minor issue_alt issue_region
         "env_scan response_critical_minor" state_initial]
  from order rv sub have a: "violations (extractDetailedScanResults response_critical_minor)
       = spec_violation_order response_critical_minor"
    by blast
  from order rv have b: "violations (extractDetailedScanResults response_critical_minor)
       = [issue_detail issue_alt, issue_detail issue_region]"
    by blast
  from order rv have c: "sent (handler_commands (env_scan response_critical_minor)
        (state_initial\<lparr>detailedScanResults := extractDetailedScanResults response_critical_minor,
           scanResults := formatScanResults response_critical_minor\<rparr>)
        \<lparr>command = Some ''fix'', prompt = ''2''\<rparr>)
       = [\<lparr>req_url = apiUrl state_initial @ ''/api/accessibility/fix'',
           req_body = QueryObject (fix_query_commands (issue_detail issue_region)),
           req_key = apiKey state_initial\<rparr>]"
    by blast
  from rv sub a b c show ?thesis
    unfolding st by blast
qed

text \<open>
  The claim as it is written fails for a response that lists \<open>minor\<close> before
  \<open>critical\<close>: the minor violation comes first, where the fixed order puts the critical
  one first.
\<close>

theorem C3_counterexample:
  "violations (extractDetailedScanResults response_minor_critical)
     = [issue_detail issue_region, issue_detail issue_alt]
   \<and> spec_violation_order response_minor_critical
     = [issue_detail issue_alt, issue_detail issue_region]
   \<and> violations (extractDetailedScanResults response_minor_critical)
     \<noteq> spec_violation_order response_minor_critical"
  by (simp add: extract_violations_visited visited_def issues_of_def spec_violation_order_def
      fixed_severity_order_def response_minor_critical_def issue_detail_def issue_region_def
      issue_alt_def)

section \<open>Claims about the API client\<close>

text \<open>
  Claim C10.  When the query starts with an opening brace, \<open>queryAccessibilityApi\<close>
  parses it as JSON: if that succeeds, the one request it sends has the parsed value as
  its body; if it fails, no request is sent and the call fails with the message
  \<open>API request failed: \<close> followed by the parser's message.  For every other query the
  one request it sends has the body \<open>{query: <string>}\<close>.
\<close>

theorem C10_query_body:
  "(prefix ''{'' query \<longrightarrow>
      (\<forall>parsed. json_parse e query = Inr parsed \<longrightarrow>
         fst (queryAccessibilityApi e url cmd key query)
           = [\<lparr>req_url = url @ ''/api/accessibility/'' @ cmd, req_body = ParsedQuery parsed,
                req_key = key\<rparr>])
      \<and> (\<forall>m. json_parse e query = Inl m \<longrightarrow>
         queryAccessibilityApi e url cmd key query
           = ([], Inl (Error (''API request failed: '' @ m)))))
   \<and> (\<not> prefix ''{'' query \<longrightarrow>
         fst (queryAccessibilityApi e url cmd key query)
           = [\<lparr>req_url = url @ ''/api/accessibility/'' @ cmd, req_body = QueryObject query,
                req_key = key\<rparr>])"
  by (auto simp add: queryAccessibilityApi_def query_data_def Let_def split: sum.splits)

text \<open>A query that parses, one that does not, and one that is plain text.\<close>

theorem C10_query_body_witness:
  "prefix ''{'' ''{}''
   \<and> fst (queryAccessibilityApi (env_json (JObject []))
        ''http://localhost:8000'' ''explain'' ''sk-test'' ''{}'')
       = [\<lparr>req_url = ''http://localhost:8000/api/accessibility/explain'',
           req_body = ParsedQuery (JObject []),
           req_key = ''sk-test''\<rparr>]
   \<and> prefix ''{'' ''{alt''
   \<and> queryAccessibilityApi (env_scan response_one)
        ''http://localhost:8000'' ''explain'' ''sk-test'' ''{alt''
       = ([], Inl (Error ''API request failed: Unexpected end of JSON input''))
   \<and> \<not> prefix ''{'' ''alt text''
   \<and> fst (queryAccessibilityApi (env_scan response_one)
        ''http://localhost:8000'' ''explain'' ''sk-test'' ''alt text'')
       = [\<lparr>req_url = ''http://localhost:8000/api/accessibility/explain'',
           req_body = QueryObject ''alt text'', req_key = ''sk-test''\<rparr>]"
proof -
  have j: "json_parse (env_json (JObject [])) ''{}''
      = Inr (JObject [])"
    by (simp add: env_json_def env_scan_def)
  have f: "json_parse (env_scan response_one) ''{alt'' = Inl ''Unexpected end of JSON input''"
    by (simp add: env_scan_def)
  from C10_query_body [of "''{}''" "env_json (JObject [])"
         "''http://localhost:8000''" "''explain''" "''sk-test''"]
       C10_query_body [of "''{alt''" "env_scan response_one"
         "''http://localhost:8000''" "''explain''" "''sk-test''"]
       C10_query_body [of "''alt text''" "env_scan response_one"
         "''http://localhost:8000''" "''explain''" "''sk-test''"]
       j f
  show ?thesis by simp
qed

section \<open>Claims about the command history\<close>







section \<open>Characters, trimming and lower case\<close>

lemma lower_char_cases:
  "lower_char c = c \<or> (c \<in> set upper_letters \<and> lower_char c \<in> set lower_letters)"
proof (cases "map_of (zip upper_letters lower_letters) c")
  case None
  then show ?thesis by (simp add: lower_char_def)
next
  case (Some d)
  then have "(c, d) \<in> set (zip upper_letters lower_letters)" by (rule map_of_SomeD)
  then have "c \<in> set upper_letters" and "d \<in> set lower_letters"
    by (auto dest: set_zip_leftD set_zip_rightD)
  with Some show ?thesis by (simp add: lower_char_def)
qed

lemma letters_not_space:
  "c \<in> set upper_letters \<Longrightarrow> \<not> is_space c" "c \<in> set lower_letters \<Longrightarrow> \<not> is_space c"
  by (auto simp: upper_letters_def lower_letters_def is_space_def)

lemma letters_not_digit:
  "c \<in> set upper_letters \<Longrightarrow> \<not> is_digit c" "c \<in> set lower_letters \<Longrightarrow> \<not> is_digit c"
  by (auto simp: upper_letters_def lower_letters_def is_digit_def digit_chars_def)

lemma letters_word:
  "c \<in> set upper_letters \<Longrightarrow> is_word c" "c \<in> set lower_letters \<Longrightarrow> is_word c"
  by (auto simp: is_word_def)

lemma is_space_lower [simp]: "is_space (lower_char c) = is_space c"
  using lower_char_cases [of c] by (auto simp: letters_not_space)

lemma is_digit_lower [simp]: "is_digit (lower_char c) = is_digit c"
  using lower_char_cases [of c] by (auto simp: letters_not_digit)

lemma is_word_lower [simp]: "is_word (lower_char c) = is_word c"
  using lower_char_cases [of c] by (auto simp: letters_word)

lemma lower_digit [simp]: "is_digit c \<Longrightarrow> lower_char c = c"
  using lower_char_cases [of c] by (auto simp: letters_not_digit)

lemma digit_is_word: "is_digit c \<Longrightarrow> is_word c"
  by (auto simp: is_digit_def is_word_def)

lemma digit_not_space: "is_digit c \<Longrightarrow> \<not> is_space c"
  by (auto simp: is_digit_def is_space_def digit_chars_def)

lemma space_not_word: "is_space c \<Longrightarrow> \<not> is_word c"
  by (auto simp: is_space_def is_word_def upper_letters_def lower_letters_def digit_chars_def)

subsection \<open>Trimming\<close>

lemma dropWhile_space_lower: "dropWhile is_space (map lower_char s) = map lower_char (dropWhile is_space s)"
  by (induction s) simp_all

lemma trim_toLowerCase: "trim (toLowerCase s) = toLowerCase (trim s)"
  by (simp add: trim_def toLowerCase_def dropWhile_space_lower rev_map)

lemma trim_middle:
  assumes "t \<noteq> []" and "\<not> is_space (hd t)" and "\<not> is_space (last t)"
  shows "trim (pre @ t @ post) = dropWhile is_space pre @ t @ rev (dropWhile is_space (rev post))"
proof -
  from assms have a: "dropWhile is_space (pre @ t @ post) = dropWhile is_space pre @ t @ post"
    by (cases t) (auto simp: dropWhile_append)
  from assms have "rev t \<noteq> []" and "\<not> is_space (hd (rev t))"
    by (simp_all add: hd_rev)
  then have "dropWhile is_space (rev post @ rev t @ rev (dropWhile is_space pre))
      = dropWhile is_space (rev post) @ rev t @ rev (dropWhile is_space pre)"
    by (cases "rev t") (auto simp: dropWhile_append)
  with a show ?thesis by (simp add: trim_def)
qed

lemma trim_idem: "trim (trim s) = trim s"
proof (cases "trim s = []")
  case True
  show ?thesis unfolding True by (simp add: trim_def)
next
  case False
  define a where "a = dropWhile is_space s"
  define b where "b = dropWhile is_space (rev a)"
  have ts: "trim s = rev b" by (simp add: trim_def a_def b_def)
  with False have bne: "b \<noteq> []" by simp
  then have hb: "\<not> is_space (hd b)" unfolding b_def by (rule hd_dropWhile)
  from bne have "a \<noteq> []" by (auto simp: b_def)
  then have ha: "\<not> is_space (hd a)" unfolding a_def by (rule hd_dropWhile)
  define w where "w = takeWhile is_space (rev a)"
  have "rev a = w @ b" by (simp add: b_def w_def)
  then have "rev (rev a) = rev (w @ b)" by (rule arg_cong)
  then have "a = rev b @ rev w" by simp
  with bne have "hd (rev b) = hd a" by simp
  with ha have "dropWhile is_space (rev b) = rev b" using bne by (cases "rev b") auto
  moreover from hb bne have "dropWhile is_space b = b" by (cases b) auto
  ultimately have "trim (rev b) = rev b" by (simp add: trim_def)
  then show ?thesis by (simp only: ts)
qed

section \<open>The URL pattern\<close>

lemma urlPattern_at_Some_iff:
  "urlPattern_at s \<noteq> None \<longleftrightarrow>
     (\<exists>c r. \<not> is_space c \<and> (s = ''https://'' @ c # r \<or> s = ''http://'' @ c # r))"
  by (auto simp add: urlPattern_at_def url_rest_def prefix_def split: list.splits)

lemma scheme_not_space:
  "x \<in> set ''https://'' \<Longrightarrow> \<not> is_space x" "x \<in> set ''http://'' \<Longrightarrow> \<not> is_space x"
  by (auto simp: is_space_def)

lemma urlPattern_at_append_None:
  assumes none: "urlPattern_at A = None" and ne: "A \<noteq> []" and sp: "is_space (last A)"
  shows "urlPattern_at (A @ B) = None"
proof (rule ccontr)
  assume "urlPattern_at (A @ B) \<noteq> None"
  then obtain c r where c: "\<not> is_space c"
    and s: "A @ B = ''https://'' @ c # r \<or> A @ B = ''http://'' @ c # r"
    unfolding urlPattern_at_Some_iff by blast
  from s obtain X where X: "X = ''https://'' \<or> X = ''http://''" and eq: "A @ B = (X @ [c]) @ r"
    by auto
  from X c have nosp: "\<forall>x \<in> set (X @ [c]). \<not> is_space x"
    by (auto simp: scheme_not_space)
  from eq obtain us where "A = (X @ [c]) @ us \<and> us @ B = r \<or> A @ us = X @ [c] \<and> B = us @ r"
    unfolding append_eq_append_conv2 by blast
  then show False
  proof
    assume "A = (X @ [c]) @ us \<and> us @ B = r"
    with X c have "urlPattern_at A \<noteq> None"
      unfolding urlPattern_at_Some_iff by auto
    with none show False by simp
  next
    assume a: "A @ us = X @ [c] \<and> B = us @ r"
    from ne have "last A \<in> set (A @ us)" by simp
    with a have "last A \<in> set (X @ [c])" by (simp only:)
    with nosp sp show False by blast
  qed
qed

lemma url_token_at:
  assumes "url_token T" and "Q = [] \<or> is_space (hd Q)"
  shows "urlPattern_at (T @ Q) = Some T"
proof -
  from assms(1) have nosp: "\<forall>x \<in> set T. \<not> is_space x"
    by (simp add: url_token_def list_all_iff)
  from assms(2) have q: "takeWhile (\<lambda>x. \<not> is_space x) Q = []"
    by (cases Q) auto
  from assms(1) consider
      (s) r where "T = ''https://'' @ r" "r \<noteq> []"
    | (p) r where "T = ''http://'' @ r" "r \<noteq> []"
    by (auto simp: url_token_def prefix_def)
  then show ?thesis
  proof cases
    case s
    with nosp have "\<forall>x \<in> set r. \<not> is_space x" by simp
    then have "takeWhile (\<lambda>x. \<not> is_space x) (r @ Q) = r"
      by (simp add: takeWhile_append2 q)
    with s nosp show ?thesis
      by (cases r) (simp_all add: urlPattern_at_def url_rest_def)
  next
    case p
    with nosp have "\<forall>x \<in> set r. \<not> is_space x" by simp
    then have "takeWhile (\<lambda>x. \<not> is_space x) (r @ Q) = r"
      by (simp add: takeWhile_append2 q)
    with p nosp show ?thesis
      by (cases r) (simp_all add: urlPattern_at_def url_rest_def)
  qed
qed

lemma urlPattern_match_None_Cons:
  "urlPattern_match (c # cs) = None \<longleftrightarrow> urlPattern_at (c # cs) = None \<and> urlPattern_match cs = None"
  by (simp split: option.splits)

lemma urlPattern_match_dropWhile:
  "urlPattern_match s = None \<Longrightarrow> urlPattern_match (dropWhile f s) = None"
  by (induction s) (simp_all only: urlPattern_match_None_Cons dropWhile.simps split: if_splits, simp_all)

lemma urlPattern_match_first:
  assumes "url_token T" and "Q = [] \<or> is_space (hd Q)"
  shows "urlPattern_match P = None \<Longrightarrow> P = [] \<or> is_space (last P) \<Longrightarrow>
         urlPattern_match (P @ T @ Q) = Some T"
proof (induction P)
  case Nil
  from assms(1) have "T \<noteq> []" by (auto simp: url_token_def)
  then obtain c cs where "T @ Q = c # cs" by (cases T) auto
  with url_token_at [OF assms] show ?case by simp
next
  case (Cons c P)
  from Cons.prems have at: "urlPattern_at (c # P) = None" and rest: "urlPattern_match P = None"
    by (simp_all only: urlPattern_match_None_Cons)
  from Cons.prems have sp: "is_space (last (c # P))" by simp
  then have "P = [] \<or> is_space (last P)" by (cases P) simp_all
  with rest have ih: "urlPattern_match (P @ T @ Q) = Some T" by (rule Cons.IH)
  from at sp have "urlPattern_at ((c # P) @ T @ Q) = None"
    by (intro urlPattern_at_append_None) simp_all
  with ih show ?case by simp
qed

section \<open>The fix pattern and the issue number\<close>

subsection \<open>The bare integer is the same in the raw and in the normalised utterance\<close>

lemma takeWhile_digit_lower: "takeWhile is_digit (map lower_char s) = takeWhile is_digit s"
  by (induction s) simp_all

lemma dropWhile_digit_lower: "dropWhile is_digit (map lower_char s) = map lower_char (dropWhile is_digit s)"
  by (induction s) simp_all

lemma bare_integer_at_lower: "bare_integer_at pw (map lower_char s) = bare_integer_at pw s"
proof -
  have "is_word (hd (map lower_char r)) = is_word (hd r)" if "r \<noteq> []" for r
    using that by (cases r) simp_all
  then show ?thesis
    by (auto simp add: bare_integer_at_def takeWhile_digit_lower dropWhile_digit_lower Let_def)
qed

lemma issuePattern_match_lower: "issuePattern_match pw (map lower_char s) = issuePattern_match pw s"
proof (induction s arbitrary: pw)
  case Nil
  show ?case by simp
next
  case (Cons c s)
  have "bare_integer_at pw (map lower_char (c # s)) = bare_integer_at pw (c # s)"
    by (rule bare_integer_at_lower)
  then have "bare_integer_at pw (lower_char c # map lower_char s) = bare_integer_at pw (c # s)"
    by simp
  with Cons show ?case by (simp split: option.split)
qed

lemma bare_integer_at_space: "is_space c \<Longrightarrow> bare_integer_at pw (c # s) = None"
  by (auto simp add: bare_integer_at_def dest: digit_not_space)

lemma issuePattern_match_dropWhile_space:
  "issuePattern_match False (dropWhile is_space s) = issuePattern_match False s"
  by (induction s) (simp_all add: bare_integer_at_space space_not_word)

lemma issuePattern_match_spaces:
  "\<forall>x \<in> set ws. is_space x \<Longrightarrow> issuePattern_match pw ws = None"
  by (induction ws arbitrary: pw) (simp_all add: bare_integer_at_space)

lemma takeWhile_digit_spaces: "\<forall>x \<in> set ws. is_space x \<Longrightarrow> takeWhile is_digit ws = []"
  by (cases ws) (auto dest: digit_not_space)

lemma bare_integer_at_append_spaces:
  assumes "\<forall>x \<in> set ws. is_space x" and "s \<noteq> []"
  shows "bare_integer_at pw (s @ ws) = bare_integer_at pw s"
proof (cases "\<forall>x \<in> set s. is_digit x")
  case True
  then have t: "takeWhile is_digit (s @ ws) = s" "dropWhile is_digit (s @ ws) = ws"
    "takeWhile is_digit s = s" "dropWhile is_digit s = []"
    using assms(1) by (simp_all add: takeWhile_append2 dropWhile_append takeWhile_digit_spaces
        dropWhile_eq_self_iff) (cases ws; auto dest: digit_not_space)+
  from assms(1) have "ws = [] \<or> \<not> is_word (hd ws)"
    by (cases ws) (auto dest: space_not_word)
  then show ?thesis unfolding bare_integer_at_def Let_def t by simp
next
  case False
  then have t: "takeWhile is_digit (s @ ws) = takeWhile is_digit s"
    "dropWhile is_digit (s @ ws) = dropWhile is_digit s @ ws" "dropWhile is_digit s \<noteq> []"
    by (auto simp add: takeWhile_append dropWhile_append)
  from t(3) have "hd (dropWhile is_digit s @ ws) = hd (dropWhile is_digit s)" by simp
  with t(3) show ?thesis unfolding bare_integer_at_def Let_def t(1,2) by auto
qed

lemma issuePattern_match_append_spaces:
  "\<forall>x \<in> set ws. is_space x \<Longrightarrow> issuePattern_match pw (s @ ws) = issuePattern_match pw s"
proof (induction s arbitrary: pw)
  case Nil
  then show ?case by (simp add: issuePattern_match_spaces)
next
  case (Cons c s)
  from Cons.prems have "bare_integer_at pw ((c # s) @ ws) = bare_integer_at pw (c # s)"
    by (intro bare_integer_at_append_spaces) simp_all
  with Cons show ?case by (simp split: option.split)
qed

lemma issuePattern_match_trim: "issuePattern_match False (trim s) = issuePattern_match False s"
proof -
  define a where "a = dropWhile is_space s"
  define w where "w = takeWhile is_space (rev a)"
  have "rev a = w @ dropWhile is_space (rev a)" by (simp add: w_def)
  then have "rev (rev a) = rev (w @ dropWhile is_space (rev a))" by (rule arg_cong)
  then have a: "a = trim s @ rev w" by (simp add: trim_def a_def)
  have "\<forall>x \<in> set (rev w). is_space x" by (auto simp: w_def dest: set_takeWhileD)
  then have "issuePattern_match False (trim s @ rev w) = issuePattern_match False (trim s)"
    by (rule issuePattern_match_append_spaces)
  with a have "issuePattern_match False (trim s) = issuePattern_match False a" by simp
  then show ?thesis by (simp add: a_def issuePattern_match_dropWhile_space)
qed

lemma issuePattern_match_normalised:
  "issuePattern_match False (trim (toLowerCase u)) = issuePattern_match False u"
  by (simp add: issuePattern_match_trim) (simp add: toLowerCase_def issuePattern_match_lower)

subsection \<open>What the match is, and that the fix pattern sees it\<close>

lemma issuePattern_match_digits:
  "issuePattern_match pw s = Some ds \<Longrightarrow> ds \<noteq> [] \<and> (\<forall>c \<in> set ds. is_digit c)"
proof (induction s arbitrary: pw)
  case Nil
  then show ?case by simp
next
  case (Cons c s)
  show ?case
  proof (cases "bare_integer_at pw (c # s)")
    case None
    with Cons show ?thesis by simp
  next
    case (Some d)
    with Cons.prems have "d = ds" by simp
    with Some have "ds \<noteq> []" and "ds = takeWhile is_digit (c # s)"
      by (auto simp add: bare_integer_at_def Let_def split: if_splits)
    then show ?thesis by (metis set_takeWhileD)
  qed
qed

lemma issuePattern_match_fixPattern:
  "issuePattern_match pw s = Some ds \<Longrightarrow> fixPattern_test pw s"
  by (induction s arbitrary: pw) (auto simp add: fixPattern_at_def split: option.splits)

lemma digit_not_sign: "is_digit c \<Longrightarrow> c \<noteq> CHR ''-'' \<and> c \<noteq> CHR ''+''"
  by (auto simp: is_digit_def digit_chars_def)

lemma parseInt_digits:
  assumes "ds \<noteq> []" and "\<forall>c \<in> set ds. is_digit c"
  shows "parseInt ds = Some (int (decimal ds))"
proof -
  from assms obtain c cs where ds: "ds = c # cs" and c: "is_digit c" by (cases ds) auto
  from c have "\<not> is_space c" and "c \<noteq> CHR ''-''" and "c \<noteq> CHR ''+''"
    by (simp_all add: digit_not_space digit_not_sign)
  moreover from assms(2) have "takeWhile is_digit ds = ds" by simp
  ultimately show ?thesis
    using ds by (simp add: parseInt_def Let_def)
qed

subsection \<open>Keywords\<close>

lemma keyword_at: "k \<in> set fix_keywords \<Longrightarrow> fixPattern_at pw (k @ ss)"
  by (auto simp add: fix_keywords_def fixPattern_at_def)

lemma fixPattern_test_append:
  "s \<noteq> [] \<Longrightarrow> (\<And>pw'. fixPattern_at pw' s) \<Longrightarrow> fixPattern_test pw (ps @ s)"
proof (induction ps arbitrary: pw)
  case Nil
  then show ?case by (cases s) simp_all
next
  case (Cons c ps)
  then show ?case by simp
qed

lemma keyword_not_space: "k \<in> set fix_keywords \<Longrightarrow> k \<noteq> [] \<and> \<not> is_space (hd k) \<and> \<not> is_space (last k)"
  by (auto simp add: fix_keywords_def is_space_def)

lemma keyword_fixPattern:
  assumes "k \<in> set fix_keywords" and "sublist k q"
  shows "fixPattern_test False (trim q)"
proof -
  from assms(2) obtain ps ss where "q = ps @ k @ ss" by (auto simp: sublist_def)
  with keyword_not_space [OF assms(1)]
  have "trim q = dropWhile is_space ps @ k @ rev (dropWhile is_space (rev ss))"
    by (simp add: trim_middle)
  moreover from assms(1) have "fixPattern_test False
      (dropWhile is_space ps @ (k @ rev (dropWhile is_space (rev ss))))"
    using keyword_not_space [OF assms(1)] by (intro fixPattern_test_append keyword_at) simp_all
  ultimately show ?thesis by simp
qed

lemma detectIntent_trim: "detectIntent (trim u) = detectIntent u"
  by (simp add: detectIntent_def trim_toLowerCase trim_idem)

lemma run_fix_sends:
  assumes "1 \<le> k" and "k \<le> int (length (violations (detailedScanResults st)))"
    and "k < int (length (scanResults st))"
    and "\<not> prefix ''{'' (fq (violations (detailedScanResults st) ! nat (k - 1)))"
  shows "sent (run_fix e fq st (Some k)) =
     [\<lparr>req_url = apiUrl st @ ''/api/accessibility/fix'',
       req_body = QueryObject (fq (violations (detailedScanResults st) ! nat (k - 1))),
       req_key = apiKey st\<rparr>]"
  using assms
  by (simp add: run_fix_def array_get_def run_query_def queryAccessibilityApi_def query_data_def
      Let_def split: sum.splits option.splits)

lemma fix_query_detect_not_json: "\<not> prefix ''{'' (fix_query_detect v)"
  by (simp add: fix_query_detect_def)

section \<open>The first URL and the first bare integer\<close>

lemma all_below: "list_all P [0 ..< n] \<Longrightarrow> \<forall>i < n. P i"
  by (simp add: list_all_iff)

lemma urlPattern_at_url_start: "urlPattern_at s \<noteq> None \<longleftrightarrow> url_start s"
proof -
  have "url_rest scheme r \<noteq> None \<longleftrightarrow> r \<noteq> [] \<and> \<not> is_space (hd r)" for scheme r
    by (cases r) (simp_all add: url_rest_def)
  moreover have "drop n s \<noteq> [] \<longleftrightarrow> length s > n" for n by auto
  moreover have "hd (drop n s) = s ! n" if "length s > n" for n
    using that by (simp add: hd_drop_conv_nth)
  moreover have "\<not> (prefix ''https://'' s \<and> prefix ''http://'' s)"
    by (auto simp: prefix_def)
  ultimately show ?thesis
    unfolding urlPattern_at_def url_start_def by auto
qed

lemma url_start_append: "url_start A \<Longrightarrow> url_start (A @ B)"
  by (auto simp add: url_start_def nth_append)

lemma urlPattern_match_skip:
  "\<forall>j < length P. \<not> url_start (drop j (P @ R)) \<Longrightarrow> urlPattern_match (P @ R) = urlPattern_match R"
proof (induction P)
  case Nil
  show ?case by simp
next
  case (Cons c P)
  from Cons.prems have "\<not> url_start (drop 0 ((c # P) @ R))" by blast
  then have at: "urlPattern_at (c # P @ R) = None"
    using urlPattern_at_url_start [of "c # P @ R"] by simp
  have "\<forall>j < length P. \<not> url_start (drop j (P @ R))"
  proof (intro allI impI)
    fix j assume "j < length P"
    then have "Suc j < length (c # P)" by simp
    with Cons.prems have "\<not> url_start (drop (Suc j) ((c # P) @ R))" by blast
    then show "\<not> url_start (drop j (P @ R))" by simp
  qed
  then have "urlPattern_match (P @ R) = urlPattern_match R" by (rule Cons.IH)
  with at show ?case by simp
qed

lemma urlPattern_match_found:
  "urlPattern_match R \<noteq> None \<Longrightarrow> urlPattern_match (P @ R) \<noteq> None"
  by (induction P) (auto split: option.splits)

lemma url_token_start: "url_token T \<Longrightarrow> url_start (T @ Q)"
  by (auto simp add: url_token_def url_start_def list_all_iff nth_append)

lemma trim_decompose:
  "s = takeWhile is_space s @ trim s @ rev (takeWhile is_space (rev (dropWhile is_space s)))"
proof -
  define a where "a = dropWhile is_space s"
  define w where "w = takeWhile is_space (rev a)"
  have "rev a = w @ dropWhile is_space (rev a)" by (simp add: w_def)
  then have "rev (rev a) = rev (w @ dropWhile is_space (rev a))" by (rule arg_cong)
  then have "a = trim s @ rev w" by (simp add: trim_def a_def)
  moreover have "s = takeWhile is_space s @ a" by (simp add: a_def)
  ultimately show ?thesis by (simp add: a_def w_def)
qed

lemma url_start_in_trim:
  assumes "j < length (trim s)" and "url_start (drop j (trim s))"
  shows "\<exists>i < length s. url_start (drop i s)"
proof -
  define W where "W = takeWhile is_space s"
  define W' where "W' = rev (takeWhile is_space (rev (dropWhile is_space s)))"
  have s: "s = W @ trim s @ W'" unfolding W_def W'_def by (rule trim_decompose)
  from assms(1) have "drop (length W + j) (W @ trim s @ W') = drop j (trim s) @ W'" by simp
  with s have "drop (length W + j) s = drop j (trim s) @ W'" by simp
  with assms(2) have "url_start (drop (length W + j) s)" by (simp add: url_start_append)
  moreover from s assms(1) have "length W + j < length s"
    by (metis add_less_cancel_left length_append trans_less_add1)
  ultimately show ?thesis by blast
qed

lemma no_url_normalised:
  assumes "\<forall>i < length u. \<not> url_start (drop i (toLowerCase u))"
  shows "urlPattern_match (trim (toLowerCase u)) = None"
proof -
  have len: "length (toLowerCase u) = length u" by (simp add: toLowerCase_def)
  have "\<forall>j < length (trim (toLowerCase u)). \<not> url_start (drop j (trim (toLowerCase u) @ []))"
  proof (intro allI impI notI)
    fix j assume "j < length (trim (toLowerCase u))"
      and "url_start (drop j (trim (toLowerCase u) @ []))"
    then have "\<exists>i < length (toLowerCase u). url_start (drop i (toLowerCase u))"
      by (intro url_start_in_trim [of j]) simp_all
    with assms len show False by auto
  qed
  then have "urlPattern_match (trim (toLowerCase u) @ []) = urlPattern_match []"
    by (rule urlPattern_match_skip)
  then show ?thesis by simp
qed

lemma nonword_not_digit: "\<not> is_word c \<Longrightarrow> \<not> is_digit c"
  using digit_is_word by blast

lemma bare_integer_at_True: "bare_integer_at True s = None"
  by (simp add: bare_integer_at_def Let_def)

lemma bare_integer_at_nonword: "\<not> is_word c \<Longrightarrow> bare_integer_at pw (c # cs) = None"
  by (simp add: bare_integer_at_def Let_def nonword_not_digit)

lemma issuePattern_match_True:
  "issuePattern_match True s = issuePattern_match False (dropWhile is_word s)"
proof (induction s)
  case Nil
  show ?case by simp
next
  case (Cons c s)
  show ?case
  proof (cases "is_word c")
    case True
    with Cons show ?thesis by (simp add: bare_integer_at_True)
  next
    case False
    then show ?thesis by (simp add: bare_integer_at_True bare_integer_at_nonword)
  qed
qed

lemma bare_integer_at_run:
  assumes "is_word c"
  shows "bare_integer_at False (c # cs) =
     (if list_all is_digit (takeWhile is_word (c # cs)) then Some (takeWhile is_word (c # cs))
      else None)"
proof -
  define s where "s = c # cs"
  define w where "w = takeWhile is_word s"
  define r where "r = dropWhile is_word s"
  have s: "s = w @ r" by (simp add: w_def r_def)
  from assms have wne: "w \<noteq> []" by (simp add: w_def s_def)
  have r: "r = [] \<or> \<not> is_word (hd r)"
  proof (cases "r = []")
    case False
    then have "\<not> is_word (hd r)" unfolding r_def by (rule hd_dropWhile)
    then show ?thesis ..
  qed simp
  have wword: "\<forall>x \<in> set w. is_word x" by (auto simp: w_def dest: set_takeWhileD)
  show ?thesis
  proof (cases "list_all is_digit w")
    case True
    then have wd: "\<forall>x \<in> set w. is_digit x" by (simp add: list_all_iff)
    from r have tr: "takeWhile is_digit r = []" and dr: "dropWhile is_digit r = r"
      by (cases r; auto simp: nonword_not_digit)+
    from wd have "takeWhile is_digit s = w" "dropWhile is_digit s = r"
      by (simp_all add: s takeWhile_append2 dropWhile_append tr dr)
    with wne r True show ?thesis
      unfolding bare_integer_at_def Let_def s_def [symmetric] w_def [symmetric] by simp
  next
    case False
    then obtain x where x: "x \<in> set w" "\<not> is_digit x" by (auto simp: list_all_iff)
    then have t: "takeWhile is_digit s = takeWhile is_digit w"
      and d: "dropWhile is_digit s = dropWhile is_digit w @ r"
      by (auto simp add: s takeWhile_append dropWhile_append)
    from x have dne: "dropWhile is_digit w \<noteq> []" by auto
    then have "hd (dropWhile is_digit w) \<in> set w"
      by (metis hd_in_set set_dropWhileD)
    with wword have "is_word (hd (dropWhile is_digit w))" by blast
    with dne have "is_word (hd (dropWhile is_digit s))" by (simp add: d)
    moreover from dne have "dropWhile is_digit s \<noteq> []" by (simp add: d)
    ultimately show ?thesis
      using False unfolding bare_integer_at_def Let_def s_def [symmetric] w_def [symmetric] by simp
  qed
qed

lemma issuePattern_match_first_bare_integer:
  "issuePattern_match False s = first_bare_integer s"
proof (induction s rule: word_runs.induct)
  case 1
  show ?case by (simp add: first_bare_integer_def)
next
  case (2 c cs)
  show ?case
  proof (cases "is_word c")
    case True
    with 2 have ih: "issuePattern_match False (dropWhile is_word cs)
        = first_bare_integer (dropWhile is_word cs)"
      by simp
    from True have "issuePattern_match False (c # cs) =
        (if list_all is_digit (takeWhile is_word (c # cs)) then Some (takeWhile is_word (c # cs))
         else issuePattern_match False (dropWhile is_word cs))"
      by (simp add: bare_integer_at_run issuePattern_match_True del: takeWhile.simps)
    with True ih show ?thesis
      by (simp add: first_bare_integer_def del: takeWhile.simps)
  next
    case False
    with 2 have "issuePattern_match False cs = first_bare_integer cs" by simp
    with False show ?thesis
      by (simp add: first_bare_integer_def bare_integer_at_nonword)
  qed
qed

subsection \<open>Numerals\<close>

lemma decimal_snoc: "decimal (ds @ [c]) = 10 * decimal ds + digit_value c"
  by (simp add: decimal_def)

lemma digit_value_nth: "d < 10 \<Longrightarrow> digit_value (digit_chars ! d) = d"
proof -
  assume "d < 10"
  then have "d \<in> {0, 1, 2, 3, 4, 5, 6, 7, 8, 9}" by auto
  then show ?thesis
    by (auto simp add: digit_value_def digit_chars_def)
qed

lemma decimal_show_nat: "decimal (show_nat n) = n"
proof (induction n rule: show_nat.induct)
  case (1 n)
  show ?case
  proof (cases "n < 10")
    case True
    then show ?thesis
      by (subst show_nat.simps) (simp add: decimal_def digit_value_nth del: show_nat.simps)
  next
    case False
    with 1 have "decimal (show_nat (n div 10)) = n div 10" by simp
    with False show ?thesis
      by (subst show_nat.simps) (simp add: decimal_snoc digit_value_nth del: show_nat.simps)
  qed
qed

lemma decimal_zeros: "decimal (replicate z CHR ''0'' @ ds) = decimal ds"
proof -
  have "foldl (\<lambda>n c. 10 * n + digit_value c) 0 (replicate z CHR ''0'') = 0"
    by (induction z) (simp_all add: digit_value_def digit_chars_def)
  then show ?thesis by (simp add: decimal_def)
qed

lemma decimal_numeral: "decimal (replicate z CHR ''0'' @ show_nat n) = n"
  by (simp only: decimal_zeros decimal_show_nat)

section \<open>Claims about the intent detector\<close>

text \<open>
  Claim C1, as the code has it.  Let an utterance of ASCII characters contain a URL
  token \<open>t\<close> (the scheme in any letter case, then characters that are no white space),
  anywhere, also glued to other text.  Then \<open>detectIntent\<close> answers \<open>scan\<close>, whatever
  fix or explain keywords and numbers the utterance holds besides.  When \<open>t\<close> is the
  first URL of the utterance (no URL starts before it) and runs to the next white space or
  to the end, the URL that the scan intent carries is \<open>t\<close> in lower case: the pattern is
  matched against the lower-cased, trimmed utterance, so the letters of the URL are not
  kept as they were typed.
\<close>

theorem C1_url_first:
  assumes "ascii_text u" and u: "u = pre @ t @ post" and tok: "url_token (toLowerCase t)"
  shows "d_command (detectIntent u) = ''scan''
    \<and> ((\<forall>i < length pre. \<not> url_start (drop i (toLowerCase u))) \<and> (post = [] \<or> is_space (hd post)) \<longrightarrow>
         detectIntent u = \<lparr>d_command = ''scan'', d_content = toLowerCase t\<rparr>)"
proof -
  define lp where "lp = toLowerCase pre"
  define lq where "lq = toLowerCase post"
  define P where "P = dropWhile is_space lp"
  define T where "T = toLowerCase t"
  define Q where "Q = rev (dropWhile is_space (rev lq))"
  define W where "W = takeWhile is_space lp"
  define W' where "W' = rev (takeWhile is_space (rev lq))"
  from tok have tok: "url_token T" by (simp add: T_def)
  then have Tne: "T \<noteq> []" and Tall: "\<forall>x \<in> set T. \<not> is_space x"
    by (auto simp: url_token_def list_all_iff)
  then have T: "T \<noteq> []" "\<not> is_space (hd T)" "\<not> is_space (last T)"
    by simp_all
  have low: "toLowerCase u = lp @ T @ lq"
    by (simp add: u toLowerCase_def T_def lp_def lq_def)
  from T have norm: "trim (toLowerCase u) = P @ T @ Q"
    unfolding low P_def Q_def by (rule trim_middle)
  have lp: "lp = W @ P" by (simp add: W_def P_def)
  have "rev lq = rev W' @ rev Q" by (simp add: W'_def Q_def)
  then have "rev (rev lq) = rev (rev W' @ rev Q)" by (rule arg_cong)
  then have lq: "lq = Q @ W'" by simp
  from tok have "url_start (T @ Q)" by (rule url_token_start)
  then have "urlPattern_at (T @ Q) \<noteq> None" by (simp only: urlPattern_at_url_start)
  moreover from Tne obtain c cs where "T @ Q = c # cs" by (cases T) auto
  ultimately have "urlPattern_match (T @ Q) \<noteq> None" by (auto split: option.splits)
  then have "urlPattern_match (P @ T @ Q) \<noteq> None" by (rule urlPattern_match_found)
  then have cmd: "d_command (detectIntent u) = ''scan''"
    by (auto simp add: detectIntent_def norm Let_def)
  have content: "detectIntent u = \<lparr>d_command = ''scan'', d_content = toLowerCase t\<rparr>"
    if first: "\<forall>i < length pre. \<not> url_start (drop i (toLowerCase u))"
      and post: "post = [] \<or> is_space (hd post)"
  proof -
    have "\<forall>j < length P. \<not> url_start (drop j (P @ T @ Q))"
    proof (intro allI impI notI)
      fix j assume j: "j < length P" and "url_start (drop j (P @ T @ Q))"
      then have "url_start (drop j (P @ T @ Q) @ W')" by (intro url_start_append)
      moreover from j have "drop (length W + j) (W @ P @ T @ Q @ W') = drop j (P @ T @ Q) @ W'"
        by simp
      ultimately have "url_start (drop (length W + j) (toLowerCase u))"
        by (simp add: low lp lq)
      moreover from j have "length W + j < length pre"
        using lp by (simp add: lp_def toLowerCase_def) (metis add_less_cancel_left length_append length_map)
      ultimately show False using first by blast
    qed
    then have skip: "urlPattern_match (P @ T @ Q) = urlPattern_match (T @ Q)"
      by (rule urlPattern_match_skip)
    have hdQ: "Q = [] \<or> is_space (hd Q)"
    proof (cases "Q = []")
      case False
      with lq have hq: "hd lq = hd Q" and pne: "post \<noteq> []"
        by (auto simp: lq_def toLowerCase_def)
      from post pne have "is_space (hd lq)"
        by (simp add: lq_def toLowerCase_def hd_map)
      then have "is_space (hd Q)" by (simp only: hq)
      then show ?thesis ..
    qed simp
    from Tne obtain c cs where "T @ Q = c # cs" by (cases T) auto
    with url_token_at [OF tok hdQ] have "urlPattern_match (T @ Q) = Some T" by simp
    with skip show ?thesis
      by (simp add: detectIntent_def norm T_def)
  qed
  from cmd content show ?thesis by blast
qed

text \<open>A mixed-case URL in brackets, after a fix keyword and a number.\<close>

theorem C1_url_first_witness:
  "ascii_text ''fix 2 (https://Example.com/Docs) now''
   \<and> ''fix 2 (https://Example.com/Docs) now'' = ''fix 2 ('' @ ''https://Example.com/Docs)'' @ '' now''
   \<and> url_token (toLowerCase ''https://Example.com/Docs)'')
   \<and> list_all (\<lambda>i. \<not> url_start (drop i (toLowerCase ''fix 2 (https://Example.com/Docs) now'')))
        [0 ..< length ''fix 2 ('']
   \<and> is_space (hd '' now'')
   \<and> detectIntent ''fix 2 (https://Example.com/Docs) now''
       = \<lparr>d_command = ''scan'', d_content = ''https://example.com/docs)''\<rparr>"
proof -
  let ?u = "''fix 2 (https://Example.com/Docs) now''"
  have a: "ascii_text ?u" by code_simp
  have u: "?u = ''fix 2 ('' @ ''https://Example.com/Docs)'' @ '' now''" by simp
  have t: "url_token (toLowerCase ''https://Example.com/Docs)'')" by code_simp
  have f: "list_all (\<lambda>i. \<not> url_start (drop i (toLowerCase ?u))) [0 ..< length ''fix 2 ('']"
    by code_simp
  have b: "is_space (hd '' now'')" by (simp add: is_space_def)
  have l: "toLowerCase ''https://Example.com/Docs)'' = ''https://example.com/docs)''"
    by code_simp
  note c = C1_url_first [OF a u t, THEN conjunct2, THEN mp, OF conjI [OF all_below [OF f] disjI2 [OF b]],
      unfolded l]
  from a u t f b c show ?thesis by (intro conjI)
qed

text \<open>
  The claim as it is written fails for a URL with an upper-case letter: the URL carried
  by the scan intent is the lower-cased one, not the exact token.
\<close>

theorem C1_counterexample:
  "''fix https://Example.com/Docs now'' = ''fix '' @ ''https://Example.com/Docs'' @ '' now''
   \<and> url_token ''https://Example.com/Docs''
   \<and> detectIntent ''fix https://Example.com/Docs now''
       = \<lparr>d_command = ''scan'', d_content = ''https://example.com/docs''\<rparr>
   \<and> d_content (detectIntent ''fix https://Example.com/Docs now'') \<noteq> ''https://Example.com/Docs''"
  by code_simp

text \<open>
  Claim C2, as the code has it.  Take an utterance of ASCII characters in which no URL
  starts at any position.  If it contains one of the keywords fix, issue, problem, error,
  violation (in any letter case) or a bare integer, \<open>detectIntent\<close> answers \<open>fix\<close>.  If
  its first bare integer (the first maximal run of word characters that is all digits) is
  \<open>ds\<close>, a number up to \<open>2^53\<close>, the issue index the handler computes is that number,
  and with that index in range the handler asks for a fix of the violation before it in
  the list; the number of a numeral is the one it denotes, leading zeros or not.  If a
  keyword is there but no bare integer, the index is the marker \<open>-1\<close>, no request is
  sent and the state is unchanged; the reply is no rejection of its own: it is the
  scan-first guidance when no scan results are stored, and otherwise the
  valid-issue-number guidance that an out-of-range number gets as well.
\<close>

theorem C2_fix_signal:
  assumes ascii: "ascii_text u"
    and nourl: "\<forall>i < length u. \<not> url_start (drop i (toLowerCase u))"
  shows "((\<exists>k \<in> set fix_keywords. sublist k (toLowerCase u)) \<or> first_bare_integer u \<noteq> None \<longrightarrow>
            detectIntent u = \<lparr>d_command = ''fix'', d_content = trim (toLowerCase u)\<rparr>)
    \<and> (\<forall>ds. first_bare_integer u = Some ds \<and> decimal ds \<le> 2 ^ 53 \<longrightarrow>
          issue_index (d_content (detectIntent u)) = Some (int (decimal ds))
          \<and> (\<forall>e st c. scanResults st \<noteq> [] \<and> 1 \<le> int (decimal ds)
                \<and> int (decimal ds) \<le> int (length (violations (detailedScanResults st)))
                \<and> int (decimal ds) < int (length (scanResults st)) \<longrightarrow>
                sent (handler_detect e st \<lparr>command = c, prompt = u\<rparr>) =
                  [\<lparr>req_url = apiUrl st @ ''/api/accessibility/fix'',
                    req_body = QueryObject (fix_query_detect
                      (violations (detailedScanResults st) ! nat (int (decimal ds) - 1))),
                    req_key = apiKey st\<rparr>]))
    \<and> (\<forall>z n. decimal (replicate z CHR ''0'' @ show_nat n) = n)
    \<and> ((\<exists>k \<in> set fix_keywords. sublist k (toLowerCase u)) \<and> first_bare_integer u = None \<longrightarrow>
          issue_index (d_content (detectIntent u)) = Some (- 1)
          \<and> (\<forall>e st c. sent (handler_detect e st \<lparr>command = c, prompt = u\<rparr>) = []
                \<and> new_state (handler_detect e st \<lparr>command = c, prompt = u\<rparr>) = st
                \<and> shown (handler_detect e st \<lparr>command = c, prompt = u\<rparr>) =
                     [if scanResults st = [] then NoScanResults else InvalidIssueNumber]))"
proof -
  define q where "q = trim (toLowerCase u)"
  from nourl have assms': "urlPattern_match (trim (toLowerCase u)) = None"
    by (rule no_url_normalised)
  have im: "issuePattern_match False q = first_bare_integer u"
    unfolding q_def
    by (simp only: issuePattern_match_normalised) (rule issuePattern_match_first_bare_integer)
  have signal: "fixPattern_test False q"
    if "(\<exists>k \<in> set fix_keywords. sublist k (toLowerCase u)) \<or> first_bare_integer u \<noteq> None"
    using that
  proof
    assume "\<exists>k \<in> set fix_keywords. sublist k (toLowerCase u)"
    then show ?thesis unfolding q_def by (auto intro: keyword_fixPattern)
  next
    assume "first_bare_integer u \<noteq> None"
    with im obtain ds where "issuePattern_match False q = Some ds" by auto
    then show ?thesis by (rule issuePattern_match_fixPattern)
  qed
  have det: "detectIntent u = \<lparr>d_command = ''fix'', d_content = q\<rparr>"
    if "(\<exists>k \<in> set fix_keywords. sublist k (toLowerCase u)) \<or> first_bare_integer u \<noteq> None"
    using signal [OF that] assms' by (simp add: detectIntent_def q_def Let_def)
  have content: "d_content (detectIntent u) = q"
    using assms' by (simp add: detectIntent_def q_def Let_def)
  have hd: "handler_detect e st \<lparr>command = c, prompt = u\<rparr> =
      (if scanResults st = [] then say st [NoScanResults] []
       else run_fix e fix_query_detect st (issue_index q))"
    if "(\<exists>k \<in> set fix_keywords. sublist k (toLowerCase u)) \<or> first_bare_integer u \<noteq> None"
    for e st c
    using det [OF that] by (simp add: handler_detect_def Let_def detectIntent_trim)
  have part2: "issue_index (d_content (detectIntent u)) = Some (int (decimal ds))
          \<and> (\<forall>e st c. scanResults st \<noteq> [] \<and> 1 \<le> int (decimal ds)
                \<and> int (decimal ds) \<le> int (length (violations (detailedScanResults st)))
                \<and> int (decimal ds) < int (length (scanResults st)) \<longrightarrow>
                sent (handler_detect e st \<lparr>command = c, prompt = u\<rparr>) =
                  [\<lparr>req_url = apiUrl st @ ''/api/accessibility/fix'',
                    req_body = QueryObject (fix_query_detect
                      (violations (detailedScanResults st) ! nat (int (decimal ds) - 1))),
                    req_key = apiKey st\<rparr>])"
    if mb: "first_bare_integer u = Some ds \<and> decimal ds \<le> 2 ^ 53" for ds
  proof -
    from mb have m: "first_bare_integer u = Some ds" ..
    from m im have mq: "issuePattern_match False q = Some ds" by simp
    from issuePattern_match_digits [OF mq] have "parseInt ds = Some (int (decimal ds))"
      by (intro parseInt_digits) simp_all
    with mq have idx: "issue_index q = Some (int (decimal ds))"
      by (simp add: issue_index_def)
    from m have sig: "(\<exists>k \<in> set fix_keywords. sublist k (toLowerCase u)) \<or> first_bare_integer u \<noteq> None"
      by simp
    show ?thesis
      by (simp add: content idx hd [OF sig] run_fix_sends fix_query_detect_not_json)
  qed
  have part3: "issue_index (d_content (detectIntent u)) = Some (- 1)
          \<and> (\<forall>e st c. sent (handler_detect e st \<lparr>command = c, prompt = u\<rparr>) = []
                \<and> new_state (handler_detect e st \<lparr>command = c, prompt = u\<rparr>) = st
                \<and> shown (handler_detect e st \<lparr>command = c, prompt = u\<rparr>) =
                     [if scanResults st = [] then NoScanResults else InvalidIssueNumber])"
    if k: "(\<exists>k \<in> set fix_keywords. sublist k (toLowerCase u)) \<and> first_bare_integer u = None"
  proof -
    from k im have idx: "issue_index q = Some (- 1)"
      by (simp add: issue_index_def)
    from k have sig: "(\<exists>k \<in> set fix_keywords. sublist k (toLowerCase u)) \<or> first_bare_integer u \<noteq> None"
      by simp
    show ?thesis
      by (simp add: content idx hd [OF sig] run_fix_def)
  qed
  have num: "\<forall>z n. decimal (replicate z CHR ''0'' @ show_nat n) = n"
    by (simp only: decimal_numeral) simp
  from det part2 part3 num show ?thesis
    unfolding q_def by blast
qed

text \<open>
  A keyword with a number after a non-bare one, a keyword with a number in range, and a
  keyword without a number, after a scan with two violations.
\<close>

theorem C2_fix_signal_witness:
  "ascii_text ''Please fix issue v2 007 now'' \<and> ascii_text ''Fix the contrast problem''
   \<and> list_all (\<lambda>i. \<not> url_start (drop i (toLowerCase ''Please fix issue v2 007 now'')))
        [0 ..< length ''Please fix issue v2 007 now'']
   \<and> ''fix'' \<in> set fix_keywords \<and> sublist ''fix'' (toLowerCase ''Please fix issue v2 007 now'')
   \<and> first_bare_integer ''Please fix issue v2 007 now'' = Some ''007''
   \<and> decimal ''007'' = 7
   \<and> detectIntent ''Please fix issue v2 007 now''
       = \<lparr>d_command = ''fix'', d_content = ''please fix issue v2 007 now''\<rparr>
   \<and> issue_index (d_content (detectIntent ''Please fix issue v2 007 now'')) = Some 7
   \<and> decimal (replicate 2 CHR ''0'' @ show_nat 7) = 7
   \<and> first_bare_integer ''Please fix issue 2 now'' = Some ''2''
   \<and> sent (handler_detect (env_scan response_one) state_scanned
        \<lparr>command = None, prompt = ''Please fix issue 2 now''\<rparr>)
       = [\<lparr>req_url = apiUrl state_scanned @ ''/api/accessibility/fix'',
           req_body = QueryObject (fix_query_detect (issue_detail issue_region)),
           req_key = apiKey state_scanned\<rparr>]
   \<and> list_all (\<lambda>i. \<not> url_start (drop i (toLowerCase ''Fix the contrast problem'')))
        [0 ..< length ''Fix the contrast problem'']
   \<and> sublist ''fix'' (toLowerCase ''Fix the contrast problem'')
   \<and> first_bare_integer ''Fix the contrast problem'' = None
   \<and> issue_index (d_content (detectIntent ''Fix the contrast problem'')) = Some (- 1)
   \<and> shown (handler_detect (env_scan response_one) state_scanned
        \<lparr>command = None, prompt = ''Fix the contrast problem''\<rparr>) = [InvalidIssueNumber]
   \<and> sent (handler_detect (env_scan response_one) state_scanned
        \<lparr>command = None, prompt = ''Fix the contrast problem''\<rparr>) = []"
proof -
  let ?u = "''Please fix issue v2 007 now''" and ?v = "''Fix the contrast problem''"
    and ?w = "''Please fix issue 2 now''"
  have au: "ascii_text ?u" and av: "ascii_text ?v" and aw: "ascii_text ?w"
    by code_simp+
  have lu: "list_all (\<lambda>i. \<not> url_start (drop i (toLowerCase ?u))) [0 ..< length ?u]"
    and lv: "list_all (\<lambda>i. \<not> url_start (drop i (toLowerCase ?v))) [0 ..< length ?v]"
    and lw: "list_all (\<lambda>i. \<not> url_start (drop i (toLowerCase ?w))) [0 ..< length ?w]"
    by code_simp+
  have k: "''fix'' \<in> set fix_keywords" by (simp add: fix_keywords_def)
  have su: "sublist ''fix'' (toLowerCase ?u)" and sv: "sublist ''fix'' (toLowerCase ?v)"
    by code_simp+
  have mu: "first_bare_integer ?u = Some ''007''" and mv: "first_bare_integer ?v = None"
    and mw: "first_bare_integer ?w = Some ''2''"
    by code_simp+
  have q: "trim (toLowerCase ?u) = ''please fix issue v2 007 now''" by code_simp
  have d7: "decimal ''007'' = 7" and d2: "decimal ''2'' = 2"
    by (simp_all add: decimal_def digit_value_def digit_chars_def)
  have b7: "decimal ''007'' \<le> 2 ^ 53" and b2: "decimal ''2'' \<le> 2 ^ 53"
    by (simp_all add: d7 d2)
  have ku: "(\<exists>k \<in> set fix_keywords. sublist k (toLowerCase ?u)) \<or> first_bare_integer ?u \<noteq> None"
    using k su by blast
  have kv: "(\<exists>k \<in> set fix_keywords. sublist k (toLowerCase ?v)) \<and> first_bare_integer ?v = None"
    using k sv mv by blast
  have r: "scanResults state_scanned \<noteq> [] \<and> 1 \<le> int (decimal ''2'')
      \<and> int (decimal ''2'') \<le> int (length (violations (detailedScanResults state_scanned)))
      \<and> int (decimal ''2'') < int (length (scanResults state_scanned))"
    by (simp add: d2 state_scanned_eval)
  note tu = C2_fix_signal [OF au all_below [OF lu]]
  note tv = C2_fix_signal [OF av all_below [OF lv]]
  note tw = C2_fix_signal [OF aw all_below [OF lw]]
  note u1 = tu [THEN conjunct1, THEN mp, OF ku]
  note u2 = tu [THEN conjunct2, THEN conjunct1, THEN spec, THEN mp, OF conjI [OF mu b7]]
  note u4 = tu [THEN conjunct2, THEN conjunct2, THEN conjunct1, THEN spec, THEN spec, of 2 7]
  note w2 = tw [THEN conjunct2, THEN conjunct1, THEN spec, THEN mp, OF conjI [OF mw b2]]
  note w3 = w2 [THEN conjunct2, THEN spec, THEN spec, THEN spec, THEN mp, OF r]
  note v1 = tv [THEN conjunct2, THEN conjunct2, THEN conjunct2, THEN mp, OF kv]
  note v2 = v1 [THEN conjunct2, THEN spec, THEN spec, THEN spec,
      of "env_scan response_one" state_scanned None]
  have i: "violations (detailedScanResults state_scanned) ! nat (int (decimal ''2'') - 1)
      = issue_detail issue_region"
    by (simp add: d2 state_scanned_eval)
  have ne: "scanResults state_scanned \<noteq> []" by (simp add: state_scanned_eval)
  have i7: "Some (int (decimal ''007'')) = Some 7" by (simp add: d7)
  from au av lu k su mu d7 u1 [unfolded q] u2 [THEN conjunct1, unfolded i7] u4 mw
    w3 [of "env_scan response_one" None, unfolded i]
    lv sv mv v1 [THEN conjunct1] v2 [THEN conjunct2, THEN conjunct2] v2 [THEN conjunct1] ne
  show ?thesis by simp
qed

text \<open>
  The claim as it is written fails for the utterance \<open>fix\<close>: before any scan the reply
  is the scan-first guidance, not a no-issue-number rejection, and after a scan it is the
  very reply that \<open>fix 99\<close> gets.
\<close>

theorem C2_counterexample:
  "''fix'' \<in> set fix_keywords \<and> sublist ''fix'' (toLowerCase ''fix'')
   \<and> first_bare_integer ''fix'' = None
   \<and> scanResults state_initial = []
   \<and> shown (handler_detect (env_scan response_one) state_initial
        \<lparr>command = None, prompt = ''fix''\<rparr>) = [NoScanResults]
   \<and> shown (handler_detect (env_scan response_one) state_initial
        \<lparr>command = None, prompt = ''fix''\<rparr>) \<noteq> [InvalidIssueNumber]
   \<and> shown (handler_detect (env_scan response_one) state_scanned
        \<lparr>command = None, prompt = ''fix''\<rparr>)
       = shown (handler_detect (env_scan response_one) state_scanned
        \<lparr>command = None, prompt = ''fix 99''\<rparr>)"
  by code_simp

end
